theory Spec2Isabelle
  imports Complex_Main "HOL-Library.Multiset" "HOL-Library.Sublist"
begin

section \<open>Service calls\<close>

subsection \<open>The record (src/unnamed/part\_000, interface ServiceCall)\<close>

text \<open>
  The TypeScript interface types \<open>priority\<close>, \<open>status\<close> and \<open>category\<close> as unions of
  string literals. At run time they are plain strings (the rows are cast with
  \<open>data as ServiceCall[]\<close>), so they are strings here and the restriction to the
  three status literals is the predicate \<open>known_status\<close>. The optional embedded
  \<open>customer\<close> is used for display only and is left out.
\<close>

record ServiceCall =
  id :: string
  ticket_number :: string
  customer_id :: string
  assigned_engineer_id :: string
  title :: string
  description :: string
  priority :: string
  status :: string
  category :: string
  location :: string
  scheduled_date :: "string option"
  started_at :: "string option"
  completed_at :: "string option"
  call_notes :: string
  created_at :: string
  updated_at :: string

definition known_status :: "string \<Rightarrow> bool" where
  "known_status s \<longleftrightarrow> s = ''assigned'' \<or> s = ''in_progress'' \<or> s = ''closed''"

subsection \<open>Dashboard.tsx, fetchServiceCalls, lines 32--37: the three buckets\<close>

text \<open>
  \<^verbatim>\<open>setAssignedCalls(typedData.filter(call => call.status === 'assigned'));
setInProgressCalls(typedData.filter(call => call.status === 'in_progress'));
setClosedCalls(typedData.filter(call => call.status === 'closed'));\<close>
\<close>

record buckets =
  assignedCalls :: "ServiceCall list"
  inProgressCalls :: "ServiceCall list"
  closedCalls :: "ServiceCall list"

definition partition_calls :: "ServiceCall list \<Rightarrow> buckets" where
  "partition_calls typedData =
     \<lparr> assignedCalls = filter (\<lambda>call. status call = ''assigned'') typedData,
       inProgressCalls = filter (\<lambda>call. status call = ''in_progress'') typedData,
       closedCalls = filter (\<lambda>call. status call = ''closed'') typedData \<rparr>"

subsection \<open>Dashboard.tsx, handleStatusChange, lines 72--78: the patch\<close>

text \<open>
  \<open>updateData\<close> is a \<open>Record<string, string | null>\<close>: a map from column names to
  values. \<open>now\<close> stands for \<open>new Date().toISOString()\<close>.
\<close>

type_synonym patch = "string \<rightharpoonup> string option"

definition updateData :: "string \<Rightarrow> string \<Rightarrow> patch" where
  "updateData now newStatus =
     (let u = [''status'' \<mapsto> Some newStatus] in
      if newStatus = ''in_progress'' then u(''started_at'' \<mapsto> Some now)
      else if newStatus = ''closed'' then u(''completed_at'' \<mapsto> Some now)
      else u)"

subsection \<open>ServiceCallCard (src/unnamed/part\_001), getActionButton, lines 36--60\<close>

text \<open>
  The button, when there is one, calls \<open>onStatusChange(call.id, s)\<close>; the model returns
  the arguments of that call, and \<open>None\<close> where the source returns \<open>null\<close>.
\<close>

definition getActionButton :: "ServiceCall \<Rightarrow> (string \<times> string) option" where
  "getActionButton call =
     (if status call = ''assigned'' then Some (id call, ''in_progress'')
      else if status call = ''in_progress'' then Some (id call, ''closed'')
      else None)"

subsection \<open>The table behind \<open>supabase.from('service_calls')\<close>\<close>

text \<open>
  From src/supabase/migrations/20251101060556\_create\_auth\_tables.sql: an UPDATE reaches
  the rows the policy "Engineers can update assigned calls" lets the signed-in user
  \<open>uid\<close> see (\<open>assigned_engineer_id = auth.uid()\<close>); the column \<open>status\<close> carries
  \<open>CHECK (status IN ('assigned', 'in_progress', 'closed'))\<close>; the trigger
  \<open>update_service_calls_updated_at\<close> stamps \<open>updated_at\<close> with the database's clock
  \<open>db_now\<close>. No constraint or trigger looks at the status the row had before.
  A patch is applied column by column; \<open>handleStatusChange\<close> only ever writes the
  three columns below.
\<close>

definition apply_patch :: "patch \<Rightarrow> ServiceCall \<Rightarrow> ServiceCall" where
  "apply_patch p row =
     (let r1 = (case p ''status'' of Some (Some s) \<Rightarrow> row\<lparr>status := s\<rparr> | _ \<Rightarrow> row);
          r2 = (case p ''started_at'' of Some v \<Rightarrow> r1\<lparr>started_at := v\<rparr> | None \<Rightarrow> r1);
          r3 = (case p ''completed_at'' of Some v \<Rightarrow> r2\<lparr>completed_at := v\<rparr> | None \<Rightarrow> r2)
      in r3)"

definition check_violated :: "patch \<Rightarrow> bool" where
  "check_violated p \<longleftrightarrow>
     (case p ''status'' of Some (Some s) \<Rightarrow> \<not> known_status s | _ \<Rightarrow> False)"

definition update_service_calls ::
  "string \<Rightarrow> string \<Rightarrow> patch \<Rightarrow> string \<Rightarrow> ServiceCall list \<Rightarrow> string option \<times> ServiceCall list" where
  "update_service_calls uid db_now p callId rows =
     (let hit = (\<lambda>row. id row = callId \<and> assigned_engineer_id row = uid) in
      if (\<exists>row \<in> set rows. hit row) \<and> check_violated p
      then (Some ''violates check constraint'', rows)
      else (None, map (\<lambda>row. if hit row then (apply_patch p row)\<lparr>updated_at := db_now\<rparr> else row) rows))"

text \<open>
  The select of \<open>fetchServiceCalls\<close> (lines 21--28): the signed-in engineer's rows, in
  ascending order of \<open>scheduled_date\<close>, the rows without one last (the database's
  default for an ascending order). The timestamps come in one format and with one
  offset, for which the order of the strings, character by character, is the order of
  the instants.
\<close>

fun string_le :: "string \<Rightarrow> string \<Rightarrow> bool" where
  "string_le [] ys = True"
| "string_le (x # xs) [] = False"
| "string_le (x # xs) (y # ys) =
     ((of_char x :: nat) < of_char y \<or> (x = y \<and> string_le xs ys))"

fun scheduled_le :: "string option \<Rightarrow> string option \<Rightarrow> bool" where
  "scheduled_le a None = True"
| "scheduled_le None (Some b) = False"
| "scheduled_le (Some a) (Some b) = string_le a b"

fun insert_by_scheduled_date :: "ServiceCall \<Rightarrow> ServiceCall list \<Rightarrow> ServiceCall list" where
  "insert_by_scheduled_date row [] = [row]"
| "insert_by_scheduled_date row (r # rs) =
     (if scheduled_le (scheduled_date row) (scheduled_date r) then row # r # rs
      else r # insert_by_scheduled_date row rs)"

definition order_by_scheduled_date :: "ServiceCall list \<Rightarrow> ServiceCall list" where
  "order_by_scheduled_date rows = foldr insert_by_scheduled_date rows []"

definition select_service_calls :: "string \<Rightarrow> ServiceCall list \<Rightarrow> ServiceCall list" where
  "select_service_calls uid rows =
     order_by_scheduled_date (filter (\<lambda>row. assigned_engineer_id row = uid) rows)"

subsection \<open>Dashboard.tsx, handleStatusChange, lines 70--91\<close>

text \<open>
  The component's state is the three buckets, the two flags and what was written to the
  console; the world is the table and that state. A failed update is logged and nothing
  else happens; a successful one is followed by \<open>fetchServiceCalls\<close>. The only
  failure modelled is the one the schema can raise; the network is taken to work.
\<close>

record dashboard =
  shown :: buckets
  loading :: bool
  refreshing :: bool
  console :: "string list"

definition fetchServiceCalls :: "string \<Rightarrow> ServiceCall list \<Rightarrow> dashboard \<Rightarrow> dashboard" where
  "fetchServiceCalls uid rows st =
     st\<lparr>shown := partition_calls (select_service_calls uid rows),
        loading := False, refreshing := False\<rparr>"

definition handleStatusChange ::
  "string \<Rightarrow> string \<Rightarrow> string \<Rightarrow> string \<Rightarrow> string \<Rightarrow> ServiceCall list \<times> dashboard
     \<Rightarrow> ServiceCall list \<times> dashboard" where
  "handleStatusChange uid now db_now callId newStatus w =
     (case w of (rows, st) \<Rightarrow>
        (case update_service_calls uid db_now (updateData now newStatus) callId rows of
           (Some err, rows') \<Rightarrow>
              (rows', st\<lparr>console := console st @ [''Error updating service call:'', err]\<rparr>)
         | (None, rows') \<Rightarrow> (rows', fetchServiceCalls uid rows' st)))"

text \<open>Sample rows for the worked examples: a call with a given id, owner and status.\<close>

definition sample_call :: "string \<Rightarrow> string \<Rightarrow> string \<Rightarrow> ServiceCall" where
  "sample_call i uid s =
     \<lparr> id = i, ticket_number = ''SC-000001'', customer_id = ''cust-1'',
       assigned_engineer_id = uid, title = ''Replace pump'', description = [],
       priority = ''medium'', status = s, category = ''repair'', location = [],
       scheduled_date = None, started_at = None, completed_at = None, call_notes = [],
       created_at = ''2025-11-01T06:05:56Z'', updated_at = ''2025-11-01T06:05:56Z'' \<rparr>"

definition dashboard0 :: dashboard where
  "dashboard0 = \<lparr> shown = \<lparr> assignedCalls = [], inProgressCalls = [], closedCalls = [] \<rparr>,
                  loading = True, refreshing = False, console = [] \<rparr>"

text \<open>
  The transitions the specification allows (section 4.1): \<open>assigned \<rightarrow> in_progress\<close> and
  \<open>in_progress \<rightarrow> closed\<close>, written from the specification's words, to compare the
  code with.
\<close>

definition permitted :: "string \<Rightarrow> string \<Rightarrow> bool" where
  "permitted old new \<longleftrightarrow>
     (old = ''assigned'' \<and> new = ''in_progress'') \<or> (old = ''in_progress'' \<and> new = ''closed'')"

section \<open>Expenses\<close>

subsection \<open>JavaScript numbers\<close>

text \<open>
  \<open>amount\<close> is a JavaScript number and \<open>sum + Number(exp.amount)\<close> is the addition of
  two of them: IEEE 754 binary64, round to nearest, ties to even. A finite number is kept
  as the rational it denotes (so the two zeros are one value, which no comparison in the
  program tells apart); \<open>round64\<close> takes an exact rational to the nearest binary64 number:
  53 significant bits, least unit \<open>2 ^ -1074\<close> (the subnormal numbers), and infinity
  for a rounded magnitude of \<open>2 ^ 1024\<close> or more. A decimal literal or a JSON number
  such as \<open>0.1\<close> is \<open>round64 (1 / 10)\<close>.
\<close>

datatype number = NaN | Infinity bool | Finite rat

function bit_length :: "int \<Rightarrow> int" where
  "bit_length n = (if n \<le> 0 then 0 else 1 + bit_length (n div 2))"
  by pat_completeness auto
termination
  by (relation "measure nat") auto

declare bit_length.simps [simp del]

definition pow2 :: "int \<Rightarrow> rat" where
  "pow2 e = (if 0 \<le> e then 2 ^ nat e else 1 / 2 ^ nat (- e))"

text \<open>
  \<open>bit_length n\<close> is the number of binary digits of a positive integer, and
  \<open>floor_log2 a\<close> the \<open>k\<close> with \<open>2 ^ k \<le> a < 2 ^ (k + 1)\<close>, for \<open>a > 0\<close>: the
  difference of the bit lengths of numerator and denominator, or one less.
\<close>

definition floor_log2 :: "rat \<Rightarrow> int" where
  "floor_log2 a = (case quotient_of a of (p, q) \<Rightarrow>
     let k = bit_length p - bit_length q
     in if pow2 k \<le> a then k else k - 1)"

definition round_half_even :: "rat \<Rightarrow> int" where
  "round_half_even x = (let f = \<lfloor>x\<rfloor>; d = x - of_int f in
     if d < 1 / 2 then f else if 1 / 2 < d then f + 1
     else if even f then f else f + 1)"

text \<open>\<open>2 ^ 1024\<close>, written out.\<close>

definition overflow_threshold :: rat where
  "overflow_threshold = 179769313486231590772930519078902473361797697894230657273430081157732675805500963132708477322407536021120113879871393357658789768814416622492847430639474124377767893424865485276302219601246094119453082952085005768838150682342462881473913110540827237163350510684586298239947245938479716304835356329624224137216"

definition round64 :: "rat \<Rightarrow> number" where
  "round64 x = (if x = 0 then Finite 0 else
     let a = \<bar>x\<bar>;
         e = max (floor_log2 a - 52) (- 1074);
         r = of_int (round_half_even (a / pow2 e)) * pow2 e
     in if overflow_threshold \<le> r then Infinity (x < 0)
        else Finite (if x < 0 then - r else r))"

text \<open>The operator \<open>+\<close> on two numbers; \<open>Infinity True\<close> is \<open>-Infinity\<close>.\<close>

fun js_add :: "number \<Rightarrow> number \<Rightarrow> number" where
  "js_add NaN _ = NaN"
| "js_add _ NaN = NaN"
| "js_add (Infinity s) (Infinity t) = (if s = t then Infinity s else NaN)"
| "js_add (Infinity s) (Finite _) = Infinity s"
| "js_add (Finite _) (Infinity t) = Infinity t"
| "js_add (Finite x) (Finite y) = round64 (x + y)"

text \<open>\<open>Number(v)\<close> of a value that is a number is that number.\<close>

definition Number :: "number \<Rightarrow> number" where
  "Number v = v"

subsection \<open>Calendar dates\<close>

text \<open>
  \<open>expense_date\<close> is a column of type \<open>date\<close>, which reaches the program as the
  date-only string \<open>YYYY-MM-DD\<close>; it is kept as its three components.
\<close>

datatype month = January | February | March | April | May | June
  | July | August | September | October | November | December

record date =
  year :: int
  month :: month
  day :: nat

fun month_number :: "month \<Rightarrow> int" where
  "month_number January = 1" | "month_number February = 2" | "month_number March = 3"
| "month_number April = 4" | "month_number May = 5" | "month_number June = 6"
| "month_number July = 7" | "month_number August = 8" | "month_number September = 9"
| "month_number October = 10" | "month_number November = 11" | "month_number December = 12"

fun prev_month :: "month \<Rightarrow> month" where
  "prev_month January = December" | "prev_month February = January"
| "prev_month March = February" | "prev_month April = March" | "prev_month May = April"
| "prev_month June = May" | "prev_month July = June" | "prev_month August = July"
| "prev_month September = August" | "prev_month October = September"
| "prev_month November = October" | "prev_month December = November"

definition is_leap :: "int \<Rightarrow> bool" where
  "is_leap y \<longleftrightarrow> y mod 4 = 0 \<and> (y mod 100 \<noteq> 0 \<or> y mod 400 = 0)"

definition days_in_month :: "int \<Rightarrow> month \<Rightarrow> nat" where
  "days_in_month y m =
     (if m = February then (if is_leap y then 29 else 28)
      else if m \<in> {April, June, September, November} then 30 else 31)"

definition prev_day :: "date \<Rightarrow> date" where
  "prev_day d =
     (if 1 < day d then d\<lparr>day := day d - 1\<rparr>
      else let y = (if month d = January then year d - 1 else year d); m = prev_month (month d)
           in \<lparr>year = y, month = m, day = days_in_month y m\<rparr>)"

text \<open>
  \<open>new Date("YYYY-MM-DD")\<close> is midnight UTC of that day (ECMAScript reads the date-only
  form as UTC). \<open>toLocaleString\<close> without a \<open>timeZone\<close> option formats in the zone of the
  machine that runs the page. Of that zone the program sees the offset from UTC in
  minutes (local = UTC + offset) at two kinds of instants: at midnight UTC of a day,
  where a date-only string is formatted, and at local midnight of a day, where a label
  is read back. The offset may change with the date (daylight saving); in every zone in
  use it lies between -12:00 and +14:00. At midnight UTC the local calendar day is the
  same day where the offset is not negative, the day before where it is.
\<close>

record zone =
  offset_at_utc_midnight :: "date \<Rightarrow> int"
  offset_at_local_midnight :: "date \<Rightarrow> int"

definition fixed_offset :: "int \<Rightarrow> zone" where
  "fixed_offset minutes =
     \<lparr> offset_at_utc_midnight = (\<lambda>d. minutes), offset_at_local_midnight = (\<lambda>d. minutes) \<rparr>"

definition valid_zone :: "zone \<Rightarrow> bool" where
  "valid_zone tz \<longleftrightarrow>
     (\<forall>d. - 720 \<le> offset_at_utc_midnight tz d \<and> offset_at_utc_midnight tz d \<le> 840
        \<and> - 720 \<le> offset_at_local_midnight tz d \<and> offset_at_local_midnight tz d \<le> 840)"

definition local_date :: "zone \<Rightarrow> date \<Rightarrow> date" where
  "local_date tz d = (if offset_at_utc_midnight tz d < 0 then prev_day d else d)"

text \<open>
  The number of days from 1970-01-01 to a date of the proleptic Gregorian calendar: the
  year is counted from March (\<open>y'\<close>, with \<open>mp\<close> the months since March), so that the
  leap day is the last day of its year.
\<close>

definition days_from_civil :: "int \<Rightarrow> month \<Rightarrow> int \<Rightarrow> int" where
  "days_from_civil y m d =
     (let y' = (if month_number m \<le> 2 then y - 1 else y);
          mp = (month_number m + 9) mod 12
      in 365 * y' + y' div 4 - y' div 100 + y' div 400 + (153 * mp + 2) div 5 + d - 1 - 719468)"

subsection \<open>The record (src/unnamed/part\_000, interface ExpenseSubmission)\<close>

record ExpenseSubmission =
  id :: string
  engineer_id :: string
  expense_date :: date
  category :: string
  amount :: number
  currency :: string
  description :: string
  receipt_url :: string
  service_call_id :: "string option"
  status :: string
  submitted_at :: "string option"
  reviewed_at :: "string option"
  reviewed_by :: "string option"
  review_notes :: string
  payment_date :: "string option"
  created_at :: string
  updated_at :: string

subsection \<open>ExpenseSubmissions.tsx, lines 89--100: month labels and the filter\<close>

text \<open>
  A label such as \<open>"November 2025"\<close> (\<open>toLocaleString('en-US', {year: 'numeric', month:
  'long'})\<close>) is kept as the pair of its month and its year. \<open>selectedMonth\<close> is either
  the string \<open>'all'\<close> or a label.
\<close>

type_synonym MonthLabel = "month \<times> int"

datatype selectedMonth = All | Label MonthLabel

definition getMonthYear :: "zone \<Rightarrow> date \<Rightarrow> MonthLabel" where
  "getMonthYear tz dateString = (let date = local_date tz dateString in (month date, year date))"

text \<open>
  \<open>new Date(label)\<close> for a label: the form "November 2025" is not the ISO form, and what
  it means is left to the engine. V8 reads a month name with one number as follows: a
  number from 1 to 31 is a day of that month, in the year 2001; any other number is the
  year, the first day of the month being meant, and a year below 50 is taken in the
  2000s, a year from 50 to 99 in the 1900s; from 100 on the year is the one written.
  The date is read in local time.
\<close>

definition label_date :: "MonthLabel \<Rightarrow> date" where
  "label_date label =
     (case label of (m, y) \<Rightarrow>
        if 1 \<le> y \<and> y \<le> 31 then \<lparr>year = 2001, month = m, day = nat y\<rparr>
        else if 0 \<le> y \<and> y \<le> 49 then \<lparr>year = 2000 + y, month = m, day = 1\<rparr>
        else if 50 \<le> y \<and> y \<le> 99 then \<lparr>year = 1900 + y, month = m, day = 1\<rparr>
        else \<lparr>year = y, month = m, day = 1\<rparr>)"

text \<open>\<open>new Date(label).getTime()\<close>: the milliseconds from the epoch to that local midnight.\<close>

definition getTime :: "zone \<Rightarrow> MonthLabel \<Rightarrow> int" where
  "getTime tz label =
     (let d = label_date label
      in days_from_civil (year d) (month d) (int (day d)) * 86400000
           - offset_at_local_midnight tz d * 60000)"

text \<open>
  \<open>Array.from(new Set(xs))\<close>: a Set keeps the first occurrence of each value, in
  insertion order.
\<close>

definition set_add :: "'a list \<Rightarrow> 'a \<Rightarrow> 'a list" where
  "set_add s x = (if x \<in> set s then s else s @ [x])"

definition array_from_set :: "'a list \<Rightarrow> 'a list" where
  "array_from_set xs = foldl set_add [] xs"

text \<open>
  \<open>Array.prototype.sort(compare)\<close>: a stable sort; \<open>a\<close> comes before \<open>b\<close> where
  \<open>compare(a, b) < 0\<close>. Modelled as the stable insertion sort.
\<close>

fun sort_insert :: "('a \<Rightarrow> 'a \<Rightarrow> int) \<Rightarrow> 'a \<Rightarrow> 'a list \<Rightarrow> 'a list" where
  "sort_insert compare x [] = [x]"
| "sort_insert compare x (y # ys) =
     (if compare x y \<le> 0 then x # y # ys else y # sort_insert compare x ys)"

definition array_sort :: "('a \<Rightarrow> 'a \<Rightarrow> int) \<Rightarrow> 'a list \<Rightarrow> 'a list" where
  "array_sort compare xs = foldr (sort_insert compare) xs []"

definition uniqueMonths :: "zone \<Rightarrow> ExpenseSubmission list \<Rightarrow> MonthLabel list" where
  "uniqueMonths tz expenses =
     array_sort (\<lambda>a b. getTime tz b - getTime tz a)
       (array_from_set (map (\<lambda>exp. getMonthYear tz (expense_date exp)) expenses))"

definition filteredExpenses ::
  "zone \<Rightarrow> selectedMonth \<Rightarrow> ExpenseSubmission list \<Rightarrow> ExpenseSubmission list" where
  "filteredExpenses tz selected expenses =
     (case selected of
        All \<Rightarrow> expenses
      | Label l \<Rightarrow> filter (\<lambda>exp. getMonthYear tz (expense_date exp) = l) expenses)"

subsection \<open>ExpenseSubmissions.tsx, lines 102--138: display classes\<close>

definition getStatusColor :: "string \<Rightarrow> string" where
  "getStatusColor s =
     (if s = ''draft'' then ''bg-gray-100 text-gray-700 border-gray-200''
      else if s = ''submitted'' then ''bg-blue-100 text-blue-700 border-blue-200''
      else if s = ''under_review'' then ''bg-yellow-100 text-yellow-700 border-yellow-200''
      else if s = ''approved'' then ''bg-green-100 text-green-700 border-green-200''
      else if s = ''rejected'' then ''bg-red-100 text-red-700 border-red-200''
      else if s = ''paid'' then ''bg-emerald-100 text-emerald-700 border-emerald-200''
      else ''bg-gray-100 text-gray-700 border-gray-200'')"

text \<open>The icons are emoji; each is the list of its Unicode code points.\<close>

type_synonym unicode = "nat list"

definition getCategoryIcon :: "string \<Rightarrow> unicode" where
  "getCategoryIcon c =
     (if c = ''travel'' then [0x1F697]
      else if c = ''meals'' then [0x1F37D, 0xFE0F]
      else if c = ''materials'' then [0x1F527]
      else if c = ''fuel'' then [0x26FD]
      else if c = ''accommodation'' then [0x1F3E8]
      else if c = ''other'' then [0x1F4CB]
      else [0x1F4C4])"

text \<open>
  ServiceCallCard (src/unnamed/part\_001), lines 17--23 and 66: the icon of a service
  call is looked up in an object literal, \<open>categoryIcons[call.category]\<close>; a key that is
  not there gives \<open>undefined\<close> (\<open>None\<close>), which renders as nothing.
\<close>

definition categoryIcons :: "string \<rightharpoonup> unicode" where
  "categoryIcons =
     [''installation'' \<mapsto> [0x1F527], ''repair'' \<mapsto> [0x1F6E0, 0xFE0F],
      ''maintenance'' \<mapsto> [0x2699, 0xFE0F], ''inspection'' \<mapsto> [0x1F50D],
      ''other'' \<mapsto> [0x1F4CB]]"

definition known_expense_status :: "string \<Rightarrow> bool" where
  "known_expense_status s \<longleftrightarrow>
     s \<in> {''draft'', ''submitted'', ''under_review'', ''approved'', ''rejected'', ''paid''}"

definition known_expense_category :: "string \<Rightarrow> bool" where
  "known_expense_category c \<longleftrightarrow>
     c \<in> {''travel'', ''meals'', ''materials'', ''fuel'', ''accommodation'', ''other''}"

subsection \<open>ExpenseSubmissions.tsx, lines 140--152: the totals\<close>

record expense_totals =
  total :: number
  approved :: number
  pending :: number

definition reduce_amounts :: "ExpenseSubmission list \<Rightarrow> number" where
  "reduce_amounts expenseList =
     foldl (\<lambda>sum exp. js_add sum (Number (amount exp))) (Finite 0) expenseList"

definition calculateTotals :: "ExpenseSubmission list \<Rightarrow> expense_totals" where
  "calculateTotals expenseList =
     \<lparr> total = reduce_amounts expenseList,
       approved = reduce_amounts
         (filter (\<lambda>exp. status exp = ''approved'' \<or> status exp = ''paid'') expenseList),
       pending = reduce_amounts
         (filter (\<lambda>exp. status exp = ''submitted'' \<or> status exp = ''under_review'') expenseList) \<rparr>"

definition totals :: "zone \<Rightarrow> selectedMonth \<Rightarrow> ExpenseSubmission list \<Rightarrow> expense_totals" where
  "totals tz selected expenses = calculateTotals (filteredExpenses tz selected expenses)"

subsection \<open>Notions of the specification, to compare the code with\<close>

text \<open>
  The exact sum of the amounts, as the specification asks it of \<open>total\<close>; the amounts
  that are not finite numbers have no part in it.
\<close>

fun exact_value :: "number \<Rightarrow> rat" where
  "exact_value (Finite x) = x"
| "exact_value _ = 0"

definition exact_sum :: "ExpenseSubmission list \<Rightarrow> rat" where
  "exact_sum expenseList = sum_list (map (\<lambda>exp. exact_value (amount exp)) expenseList)"

text \<open>
  A reduction rounds nowhere: every amount is finite and every addition, from the
  running sum \<open>s\<close> on, returns the exact sum of its operands.
\<close>

fun no_rounding :: "rat \<Rightarrow> ExpenseSubmission list \<Rightarrow> bool" where
  "no_rounding s [] = True"
| "no_rounding s (e # rest) =
     (case amount e of
        Finite x \<Rightarrow> round64 (s + x) = Finite (s + x) \<and> no_rounding (s + x) rest
      | _ \<Rightarrow> False)"

text \<open>None of the three reductions of \<open>calculateTotals\<close> rounds.\<close>

definition totals_exact :: "ExpenseSubmission list \<Rightarrow> bool" where
  "totals_exact expenseList \<longleftrightarrow>
     no_rounding 0 expenseList
     \<and> no_rounding 0
         (filter (\<lambda>exp. status exp = ''approved'' \<or> status exp = ''paid'') expenseList)
     \<and> no_rounding 0
         (filter (\<lambda>exp. status exp = ''submitted'' \<or> status exp = ''under_review'') expenseList)"

definition nonnegative :: "ExpenseSubmission \<Rightarrow> bool" where
  "nonnegative e = (case amount e of Finite x \<Rightarrow> 0 \<le> x | _ \<Rightarrow> False)"

text \<open>An amount that is a whole, non-negative number of quarters (0.25).\<close>

definition whole_quarters :: "ExpenseSubmission \<Rightarrow> bool" where
  "whole_quarters e = (case amount e of Finite x \<Rightarrow> 0 \<le> x \<and> of_int \<lfloor>4 * x\<rfloor> = 4 * x | _ \<Rightarrow> False)"

text \<open>\<open>approved + pending \<le> total\<close>, on the exact values of three finite totals.\<close>

definition within_total :: "expense_totals \<Rightarrow> bool" where
  "within_total t =
     (case (approved t, pending t, total t) of
        (Finite a, Finite p, Finite tt) \<Rightarrow> a + p \<le> tt
      | _ \<Rightarrow> False)"

text \<open>The order of the calendar on labels: \<open>a\<close> is a later month than \<open>b\<close>.\<close>

definition later_month :: "MonthLabel \<Rightarrow> MonthLabel \<Rightarrow> bool" where
  "later_month a b \<longleftrightarrow>
     snd b < snd a \<or> (snd a = snd b \<and> month_number (fst b) < month_number (fst a))"

text \<open>A sample expense with a given amount, status and date.\<close>

definition sample_expense :: "number \<Rightarrow> string \<Rightarrow> date \<Rightarrow> ExpenseSubmission" where
  "sample_expense a s d =
     \<lparr> id = ''exp-1'', engineer_id = ''eng-1'', expense_date = d, category = ''travel'',
       amount = a, currency = ''USD'', description = [], receipt_url = [],
       service_call_id = None, status = s, submitted_at = None, reviewed_at = None,
       reviewed_by = None, review_notes = [], payment_date = None,
       created_at = ''2025-11-08T21:41:01Z'', updated_at = ''2025-11-08T21:41:01Z'' \<rparr>"

section \<open>Properties of the service-call workflow\<close>

subsection \<open>The patch of a status change\<close>

text \<open>
  Claim C1. For every service call and every requested status, the patch that
  \<open>handleStatusChange\<close> builds holds the column \<open>status\<close> with the requested status;
  it holds \<open>started_at\<close>, set to the current time, exactly when the requested status is
  \<open>in_progress\<close>, and \<open>completed_at\<close>, set to the current time, exactly when it is
  \<open>closed\<close>; it holds no other column, so that applying it to a call changes these
  fields of the record and no other.
\<close>

theorem handleStatusChange_patch:
  "dom (updateData now newStatus) =
     {''status''} \<union> (if newStatus = ''in_progress'' then {''started_at''} else {})
       \<union> (if newStatus = ''closed'' then {''completed_at''} else {})
   \<and> updateData now newStatus ''status'' = Some (Some newStatus)
   \<and> updateData now ''in_progress'' ''started_at'' = Some (Some now)
   \<and> updateData now ''closed'' ''completed_at'' = Some (Some now)
   \<and> apply_patch (updateData now newStatus) call =
       call\<lparr>ServiceCall.status := newStatus,
            started_at := (if newStatus = ''in_progress'' then Some now else started_at call),
            completed_at := (if newStatus = ''closed'' then Some now else completed_at call)\<rparr>"
  by (auto simp: updateData_def apply_patch_def Let_def)

subsection \<open>Which transitions are requested, and what a request does\<close>

text \<open>
  Claim C2, as stated, fails on the code: \<open>handleStatusChange\<close> never looks at the status
  the call has. A card drawn while the call was still assigned offers Start Work; if the
  call has been closed in the meantime, the request for \<open>in_progress\<close> is a transition
  out of \<open>closed\<close>, which is not permitted, and yet the row is written, nothing is
  logged, and the call is shown as in progress again.
\<close>

theorem handleStatusChange_reopens_closed_call:
  "\<not> permitted ''closed'' ''in_progress''
   \<and> getActionButton (sample_call ''c1'' ''eng-1'' ''assigned'') = Some (''c1'', ''in_progress'')
   \<and> handleStatusChange ''eng-1'' ''2025-11-02T10:00:00.000Z'' ''2025-11-02T10:00:01Z'' ''c1''
       ''in_progress''
       ([(sample_call ''c1'' ''eng-1'' ''closed'')
           \<lparr>started_at := Some ''2025-11-01T08:00:00.000Z'',
            completed_at := Some ''2025-11-01T09:00:00.000Z''\<rparr>], dashboard0)
     = ([(sample_call ''c1'' ''eng-1'' ''in_progress'')
           \<lparr>started_at := Some ''2025-11-02T10:00:00.000Z'',
            completed_at := Some ''2025-11-01T09:00:00.000Z'',
            ServiceCall.updated_at := ''2025-11-02T10:00:01Z''\<rparr>],
        \<lparr> shown = \<lparr> assignedCalls = [],
                   inProgressCalls =
                     [(sample_call ''c1'' ''eng-1'' ''in_progress'')
                        \<lparr>started_at := Some ''2025-11-02T10:00:00.000Z'',
                         completed_at := Some ''2025-11-01T09:00:00.000Z'',
                         ServiceCall.updated_at := ''2025-11-02T10:00:01Z''\<rparr>],
                   closedCalls = [] \<rparr>,
          loading = False, refreshing = False, console = [] \<rparr>)"
  by (simp add: permitted_def getActionButton_def handleStatusChange_def
      update_service_calls_def updateData_def check_violated_def known_status_def
      apply_patch_def sample_call_def dashboard0_def fetchServiceCalls_def
      select_service_calls_def order_by_scheduled_date_def partition_calls_def Let_def)

lemma update_known_status:
  "known_status newStatus \<Longrightarrow>
   update_service_calls uid db_now (updateData now newStatus) callId rows =
     (None, map (\<lambda>row. if ServiceCall.id row = callId \<and> assigned_engineer_id row = uid
                     then (apply_patch (updateData now newStatus) row)\<lparr>ServiceCall.updated_at := db_now\<rparr>
                     else row) rows)"
  by (auto simp: update_service_calls_def check_violated_def updateData_def Let_def known_status_def)

text \<open>
  Claim C2, amended. The action button of a call requests \<open>assigned \<rightarrow> in_progress\<close> for
  an assigned call and \<open>in_progress \<rightarrow> closed\<close> for a call in progress, and nothing else:
  a closed call has no button, so that the card never requests a transition out of
  \<open>closed\<close>. \<open>handleStatusChange\<close> itself does not compare the requested status with the
  current one: a request for any of the three statuses is written to the call's row,
  whatever the row's status was, and nothing is logged.
\<close>

theorem transitions_offered_by_action_button:
  "(getActionButton call = Some (i, s) \<longleftrightarrow> i = ServiceCall.id call \<and> permitted (ServiceCall.status call) s)
   \<and> (ServiceCall.status call = ''closed'' \<longrightarrow> getActionButton call = None)
   \<and> (known_status newStatus \<longrightarrow>
        fst (handleStatusChange uid now db_now callId newStatus (rows, st)) =
          map (\<lambda>row. if ServiceCall.id row = callId \<and> assigned_engineer_id row = uid
                 then row\<lparr>ServiceCall.status := newStatus,
                   started_at := (if newStatus = ''in_progress'' then Some now else started_at row),
                   completed_at := (if newStatus = ''closed'' then Some now else completed_at row),
                   ServiceCall.updated_at := db_now\<rparr>
                 else row) rows
        \<and> console (snd (handleStatusChange uid now db_now callId newStatus (rows, st))) = console st)"
proof -
  have a: "getActionButton call = Some (i, s) \<longleftrightarrow> i = ServiceCall.id call \<and> permitted (ServiceCall.status call) s"
    by (auto simp: getActionButton_def permitted_def)
  have b: "ServiceCall.status call = ''closed'' \<longrightarrow> getActionButton call = None"
    by (simp add: getActionButton_def)
  have p: "apply_patch (updateData now newStatus) row =
       row\<lparr>ServiceCall.status := newStatus,
            started_at := (if newStatus = ''in_progress'' then Some now else started_at row),
            completed_at := (if newStatus = ''closed'' then Some now else completed_at row)\<rparr>" for row
    by (auto simp: updateData_def apply_patch_def Let_def)
  have c: "known_status newStatus \<longrightarrow>
        fst (handleStatusChange uid now db_now callId newStatus (rows, st)) =
          map (\<lambda>row. if ServiceCall.id row = callId \<and> assigned_engineer_id row = uid
                 then row\<lparr>ServiceCall.status := newStatus,
                   started_at := (if newStatus = ''in_progress'' then Some now else started_at row),
                   completed_at := (if newStatus = ''closed'' then Some now else completed_at row),
                   ServiceCall.updated_at := db_now\<rparr>
                 else row) rows
        \<and> console (snd (handleStatusChange uid now db_now callId newStatus (rows, st))) = console st"
    by (simp add: handleStatusChange_def update_known_status p fetchServiceCalls_def)
  from a b c show ?thesis by blast
qed

theorem transitions_offered_by_action_button_witness:
  "getActionButton (sample_call ''c1'' ''eng-1'' ''assigned'') = Some (''c1'', ''in_progress'')
   \<and> getActionButton (sample_call ''c1'' ''eng-1'' ''in_progress'') = Some (''c1'', ''closed'')
   \<and> getActionButton (sample_call ''c1'' ''eng-1'' ''closed'') = None
   \<and> known_status ''in_progress''
   \<and> fst (handleStatusChange ''eng-1'' ''2025-11-02T10:00:00.000Z'' ''2025-11-02T10:00:01Z'' ''c1''
         ''in_progress'' ([sample_call ''c1'' ''eng-1'' ''closed''], dashboard0))
     = [(sample_call ''c1'' ''eng-1'' ''in_progress'')
          \<lparr>started_at := Some ''2025-11-02T10:00:00.000Z'',
           ServiceCall.updated_at := ''2025-11-02T10:00:01Z''\<rparr>]"
proof -
  have closed: "ServiceCall.status (sample_call ''c1'' ''eng-1'' ''closed'') = ''closed''"
    by (simp add: sample_call_def)
  have known: "known_status ''in_progress''"
    by (simp add: known_status_def)
  have p1: "ServiceCall.id (sample_call ''c1'' ''eng-1'' ''assigned'') = ''c1''
      \<and> permitted (ServiceCall.status (sample_call ''c1'' ''eng-1'' ''assigned'')) ''in_progress''"
    by (simp add: sample_call_def permitted_def)
  have p2: "ServiceCall.id (sample_call ''c1'' ''eng-1'' ''in_progress'') = ''c1''
      \<and> permitted (ServiceCall.status (sample_call ''c1'' ''eng-1'' ''in_progress'')) ''closed''"
    by (simp add: sample_call_def permitted_def)
  note t1 = transitions_offered_by_action_button
      [of "sample_call ''c1'' ''eng-1'' ''assigned''" "''c1''" "''in_progress''"]
  note t2 = transitions_offered_by_action_button
      [of "sample_call ''c1'' ''eng-1'' ''in_progress''" "''c1''" "''closed''"]
  note t3 = transitions_offered_by_action_button
      [of "sample_call ''c1'' ''eng-1'' ''closed''" _ _ "''in_progress''" "''eng-1''"
          "''2025-11-02T10:00:00.000Z''" "''2025-11-02T10:00:01Z''" "''c1''"
          "[sample_call ''c1'' ''eng-1'' ''closed'']" dashboard0]
  have g1: "getActionButton (sample_call ''c1'' ''eng-1'' ''assigned'') = Some (''c1'', ''in_progress'')"
    using t1 p1 by simp
  have g2: "getActionButton (sample_call ''c1'' ''eng-1'' ''in_progress'') = Some (''c1'', ''closed'')"
    using t2 p2 by simp
  have g3: "getActionButton (sample_call ''c1'' ''eng-1'' ''closed'') = None"
    using t3 closed by simp
  have g4: "fst (handleStatusChange ''eng-1'' ''2025-11-02T10:00:00.000Z'' ''2025-11-02T10:00:01Z'' ''c1''
         ''in_progress'' ([sample_call ''c1'' ''eng-1'' ''closed''], dashboard0))
     = [(sample_call ''c1'' ''eng-1'' ''in_progress'')
          \<lparr>started_at := Some ''2025-11-02T10:00:00.000Z'',
           ServiceCall.updated_at := ''2025-11-02T10:00:01Z''\<rparr>]"
    using t3 known by (simp add: sample_call_def)
  from g1 g2 g3 g4 known show ?thesis by blast
qed

subsection \<open>The three buckets\<close>

lemma filter_status_mset:
  "\<forall>c \<in> set calls. known_status (ServiceCall.status c) \<Longrightarrow>
   mset (filter (\<lambda>c. ServiceCall.status c = ''assigned'') calls)
     + mset (filter (\<lambda>c. ServiceCall.status c = ''in_progress'') calls)
     + mset (filter (\<lambda>c. ServiceCall.status c = ''closed'') calls) = mset calls"
  by (induction calls) (auto simp: known_status_def)

lemma filter_status_length:
  "length (filter (\<lambda>c. ServiceCall.status c = ''assigned'') calls)
     + length (filter (\<lambda>c. ServiceCall.status c = ''in_progress'') calls)
     + length (filter (\<lambda>c. ServiceCall.status c = ''closed'') calls)
   = length (filter (\<lambda>c. known_status (ServiceCall.status c)) calls)"
  by (induction calls) (auto simp: known_status_def)

text \<open>
  Claim C4. For every list of ServiceCall records (records whose status is one of the
  three the type allows), the three buckets together hold exactly the records of the
  input, each record in exactly one bucket, the one its status names; each bucket keeps
  the order of the input (it is a subsequence of it); and the three sizes add up to the
  size of the input.
\<close>

theorem partition_calls_stable:
  "\<forall>call \<in> set calls. known_status (ServiceCall.status call) \<Longrightarrow>
   mset (assignedCalls (partition_calls calls)) + mset (inProgressCalls (partition_calls calls))
       + mset (closedCalls (partition_calls calls)) = mset calls
   \<and> (\<forall>call \<in> set calls.
         length (filter (\<lambda>bucket. call \<in> set bucket)
           [assignedCalls (partition_calls calls), inProgressCalls (partition_calls calls),
            closedCalls (partition_calls calls)]) = 1
         \<and> (call \<in> set (assignedCalls (partition_calls calls))
              \<longleftrightarrow> ServiceCall.status call = ''assigned'')
         \<and> (call \<in> set (inProgressCalls (partition_calls calls))
              \<longleftrightarrow> ServiceCall.status call = ''in_progress'')
         \<and> (call \<in> set (closedCalls (partition_calls calls))
              \<longleftrightarrow> ServiceCall.status call = ''closed''))
   \<and> subseq (assignedCalls (partition_calls calls)) calls
   \<and> subseq (inProgressCalls (partition_calls calls)) calls
   \<and> subseq (closedCalls (partition_calls calls)) calls
   \<and> length (assignedCalls (partition_calls calls)) + length (inProgressCalls (partition_calls calls))
       + length (closedCalls (partition_calls calls)) = length calls"
proof -
  assume known: "\<forall>call \<in> set calls. known_status (ServiceCall.status call)"
  have m: "mset (assignedCalls (partition_calls calls)) + mset (inProgressCalls (partition_calls calls))
       + mset (closedCalls (partition_calls calls)) = mset calls"
    using filter_status_mset [OF known] by (simp add: partition_calls_def)
  have one: "\<forall>call \<in> set calls.
         length (filter (\<lambda>bucket. call \<in> set bucket)
           [assignedCalls (partition_calls calls), inProgressCalls (partition_calls calls),
            closedCalls (partition_calls calls)]) = 1
         \<and> (call \<in> set (assignedCalls (partition_calls calls))
              \<longleftrightarrow> ServiceCall.status call = ''assigned'')
         \<and> (call \<in> set (inProgressCalls (partition_calls calls))
              \<longleftrightarrow> ServiceCall.status call = ''in_progress'')
         \<and> (call \<in> set (closedCalls (partition_calls calls))
              \<longleftrightarrow> ServiceCall.status call = ''closed'')"
    using known by (auto simp: partition_calls_def known_status_def)
  have sub: "subseq (assignedCalls (partition_calls calls)) calls"
    "subseq (inProgressCalls (partition_calls calls)) calls"
    "subseq (closedCalls (partition_calls calls)) calls"
    by (simp_all add: partition_calls_def)
  have "filter (\<lambda>c. known_status (ServiceCall.status c)) calls = calls"
    using known by (simp add: filter_id_conv)
  then have len: "length (assignedCalls (partition_calls calls))
       + length (inProgressCalls (partition_calls calls))
       + length (closedCalls (partition_calls calls)) = length calls"
    using filter_status_length [of calls] by (simp add: partition_calls_def)
  from m one sub len show ?thesis by blast
qed

theorem partition_calls_stable_witness:
  "list_all (\<lambda>call. known_status (ServiceCall.status call))
     [sample_call ''c1'' ''eng-1'' ''closed'', sample_call ''c2'' ''eng-1'' ''assigned'',
      sample_call ''c3'' ''eng-1'' ''in_progress'', sample_call ''c4'' ''eng-1'' ''assigned'']
   \<and> assignedCalls (partition_calls
         [sample_call ''c1'' ''eng-1'' ''closed'', sample_call ''c2'' ''eng-1'' ''assigned'',
          sample_call ''c3'' ''eng-1'' ''in_progress'', sample_call ''c4'' ''eng-1'' ''assigned''])
       = [sample_call ''c2'' ''eng-1'' ''assigned'', sample_call ''c4'' ''eng-1'' ''assigned'']
   \<and> length (assignedCalls (partition_calls
         [sample_call ''c1'' ''eng-1'' ''closed'', sample_call ''c2'' ''eng-1'' ''assigned'',
          sample_call ''c3'' ''eng-1'' ''in_progress'', sample_call ''c4'' ''eng-1'' ''assigned'']))
     + length (inProgressCalls (partition_calls
         [sample_call ''c1'' ''eng-1'' ''closed'', sample_call ''c2'' ''eng-1'' ''assigned'',
          sample_call ''c3'' ''eng-1'' ''in_progress'', sample_call ''c4'' ''eng-1'' ''assigned'']))
     + length (closedCalls (partition_calls
         [sample_call ''c1'' ''eng-1'' ''closed'', sample_call ''c2'' ''eng-1'' ''assigned'',
          sample_call ''c3'' ''eng-1'' ''in_progress'', sample_call ''c4'' ''eng-1'' ''assigned''])) = 4"
proof -
  have known: "\<forall>call \<in> set [sample_call ''c1'' ''eng-1'' ''closed'', sample_call ''c2'' ''eng-1'' ''assigned'',
                    sample_call ''c3'' ''eng-1'' ''in_progress'', sample_call ''c4'' ''eng-1'' ''assigned''].
      known_status (ServiceCall.status call)"
    by (simp add: sample_call_def known_status_def)
  have first: "assignedCalls (partition_calls
         [sample_call ''c1'' ''eng-1'' ''closed'', sample_call ''c2'' ''eng-1'' ''assigned'',
          sample_call ''c3'' ''eng-1'' ''in_progress'', sample_call ''c4'' ''eng-1'' ''assigned''])
       = [sample_call ''c2'' ''eng-1'' ''assigned'', sample_call ''c4'' ''eng-1'' ''assigned'']"
    by (simp add: partition_calls_def sample_call_def)
  show ?thesis
    using known first partition_calls_stable [OF known] by (simp add: list_all_iff)
qed

text \<open>
  Claim C10. A record whose status is none of \<open>assigned\<close>, \<open>in_progress\<close>, \<open>closed\<close> is in
  none of the three buckets, and the three sizes add up to the number of records that
  bear one of the three statuses: where the input holds a record of another status, to
  less than the size of the input.
\<close>

theorem partition_calls_drops_unknown:
  "(\<forall>call. \<not> known_status (ServiceCall.status call) \<longrightarrow>
        call \<notin> set (assignedCalls (partition_calls calls))
      \<and> call \<notin> set (inProgressCalls (partition_calls calls))
      \<and> call \<notin> set (closedCalls (partition_calls calls)))
   \<and> length (assignedCalls (partition_calls calls)) + length (inProgressCalls (partition_calls calls))
       + length (closedCalls (partition_calls calls))
     = length (filter (\<lambda>call. known_status (ServiceCall.status call)) calls)
   \<and> ((\<exists>call \<in> set calls. \<not> known_status (ServiceCall.status call)) \<longrightarrow>
        length (assignedCalls (partition_calls calls)) + length (inProgressCalls (partition_calls calls))
          + length (closedCalls (partition_calls calls)) < length calls)"
proof -
  have a: "\<forall>call. \<not> known_status (ServiceCall.status call) \<longrightarrow>
        call \<notin> set (assignedCalls (partition_calls calls))
      \<and> call \<notin> set (inProgressCalls (partition_calls calls))
      \<and> call \<notin> set (closedCalls (partition_calls calls))"
    by (auto simp: partition_calls_def known_status_def)
  have b: "length (assignedCalls (partition_calls calls)) + length (inProgressCalls (partition_calls calls))
       + length (closedCalls (partition_calls calls))
     = length (filter (\<lambda>call. known_status (ServiceCall.status call)) calls)"
    using filter_status_length [of calls] by (simp add: partition_calls_def)
  have c: "(\<exists>call \<in> set calls. \<not> known_status (ServiceCall.status call)) \<longrightarrow>
        length (filter (\<lambda>call. known_status (ServiceCall.status call)) calls) < length calls"
    by (metis length_filter_less)
  from a b c show ?thesis by presburger
qed

theorem partition_calls_drops_unknown_witness:
  "\<not> known_status (ServiceCall.status (sample_call ''c2'' ''eng-1'' ''cancelled''))
   \<and> sample_call ''c2'' ''eng-1'' ''cancelled'' \<in>
        set [sample_call ''c1'' ''eng-1'' ''assigned'', sample_call ''c2'' ''eng-1'' ''cancelled'']
   \<and> sample_call ''c2'' ''eng-1'' ''cancelled'' \<notin> set (assignedCalls (partition_calls
        [sample_call ''c1'' ''eng-1'' ''assigned'', sample_call ''c2'' ''eng-1'' ''cancelled'']))
   \<and> sample_call ''c2'' ''eng-1'' ''cancelled'' \<notin> set (inProgressCalls (partition_calls
        [sample_call ''c1'' ''eng-1'' ''assigned'', sample_call ''c2'' ''eng-1'' ''cancelled'']))
   \<and> sample_call ''c2'' ''eng-1'' ''cancelled'' \<notin> set (closedCalls (partition_calls
        [sample_call ''c1'' ''eng-1'' ''assigned'', sample_call ''c2'' ''eng-1'' ''cancelled'']))
   \<and> length (assignedCalls (partition_calls
        [sample_call ''c1'' ''eng-1'' ''assigned'', sample_call ''c2'' ''eng-1'' ''cancelled'']))
     + length (inProgressCalls (partition_calls
        [sample_call ''c1'' ''eng-1'' ''assigned'', sample_call ''c2'' ''eng-1'' ''cancelled'']))
     + length (closedCalls (partition_calls
        [sample_call ''c1'' ''eng-1'' ''assigned'', sample_call ''c2'' ''eng-1'' ''cancelled'']))
     < length [sample_call ''c1'' ''eng-1'' ''assigned'', sample_call ''c2'' ''eng-1'' ''cancelled'']"
proof -
  have unknown: "\<not> known_status (ServiceCall.status (sample_call ''c2'' ''eng-1'' ''cancelled''))"
    by (simp add: sample_call_def known_status_def)
  have member: "sample_call ''c2'' ''eng-1'' ''cancelled'' \<in>
        set [sample_call ''c1'' ''eng-1'' ''assigned'', sample_call ''c2'' ''eng-1'' ''cancelled'']"
    by simp
  show ?thesis
    using unknown member
      partition_calls_drops_unknown
        [of "[sample_call ''c1'' ''eng-1'' ''assigned'', sample_call ''c2'' ''eng-1'' ''cancelled'']"]
    by blast
qed

section \<open>Properties of the expense aggregator\<close>

subsection \<open>Binary64 and the calendar\<close>

lemma overflow_threshold_power: "overflow_threshold = 2 ^ 1024"
  by (simp add: overflow_threshold_def)

text \<open>
  \<open>floor_log2\<close> is the binary logarithm rounded down, and \<open>round64\<close> returns unchanged
  every number that has at most 53 significant bits and no bit below \<open>2 ^ -1074\<close>.
\<close>

lemma bit_length_pos: "0 < n \<Longrightarrow> 1 \<le> bit_length n"
proof (induction n rule: bit_length.induct)
  case (1 n)
  then have "bit_length n = 1 + bit_length (n div 2)"
    by (subst bit_length.simps) simp
  moreover have "0 \<le> bit_length (n div 2)"
  proof (cases "0 < n div 2")
    case True
    with "1.prems" "1.IH" show ?thesis by simp
  next
    case False
    then show ?thesis by (subst bit_length.simps) simp
  qed
  ultimately show ?case by simp
qed

lemma bit_length_bounds:
  "0 < n \<Longrightarrow> 2 ^ nat (bit_length n - 1) \<le> n \<and> n < 2 ^ nat (bit_length n)"
proof (induction n rule: bit_length.induct)
  case (1 n)
  show ?case
  proof (cases "0 < n div 2")
    case False
    with "1.prems" have "n = 1" by presburger
    moreover have "bit_length 1 = 1"
      by (subst bit_length.simps, subst bit_length.simps) simp
    ultimately show ?thesis by simp
  next
    case True
    with "1.prems" "1.IH" have ih: "2 ^ nat (bit_length (n div 2) - 1) \<le> n div 2"
      "n div 2 < 2 ^ nat (bit_length (n div 2))"
      by simp_all
    from True have b: "1 \<le> bit_length (n div 2)" by (rule bit_length_pos)
    have eq: "bit_length n = 1 + bit_length (n div 2)"
      using "1.prems" by (subst bit_length.simps) simp
    have n1: "nat (bit_length n - 1) = Suc (nat (bit_length (n div 2) - 1))"
      using b eq by simp
    have n2: "nat (bit_length n) = Suc (nat (bit_length (n div 2)))"
      using b eq by simp
    have lo: "2 * (n div 2) \<le> n" and hi: "n < 2 * (n div 2) + 2"
      by presburger+
    from ih lo hi show ?thesis
      unfolding n1 n2 by simp
  qed
qed

lemma pow2_powi: "pow2 e = 2 powi e"
  by (simp add: pow2_def power_int_def field_simps)

lemma pow2_pos: "0 < pow2 e"
  by (simp add: pow2_powi)

lemma pow2_add: "pow2 (a + b) = pow2 a * pow2 b"
  by (simp add: pow2_powi power_int_add)

lemma pow2_mono: "a \<le> b \<Longrightarrow> pow2 a \<le> pow2 b"
  by (simp add: pow2_powi power_int_increasing)

lemma pow2_strict_mono: "a < b \<Longrightarrow> pow2 a < pow2 b"
  by (simp add: pow2_powi power_int_strict_increasing)

lemma pow2_nat: "pow2 (int n) = 2 ^ n"
  by (simp add: pow2_def)

lemma floor_log2_spec:
  assumes "0 < a"
  shows "pow2 (floor_log2 a) \<le> a \<and> a < pow2 (floor_log2 a + 1)"
proof -
  obtain p q where pq: "quotient_of a = (p, q)" by (cases "quotient_of a")
  then have q: "0 < q" and a: "a = of_int p / of_int q"
    by (simp_all add: quotient_of_denom_pos quotient_of_div)
  with assms have p: "0 < p"
    by (simp add: zero_less_divide_iff)
  define k where "k = bit_length p - bit_length q"
  have bp: "1 \<le> bit_length p" and bq: "1 \<le> bit_length q"
    using p q by (simp_all add: bit_length_pos)
  have "of_int p < (2 ^ nat (bit_length p) :: rat)"
    using bit_length_bounds [OF p] by (metis of_int_less_iff of_int_numeral of_int_power)
  then have p_hi: "of_int p < pow2 (bit_length p)"
    using bp by (simp add: pow2_def)
  have "(2 ^ nat (bit_length p - 1) :: rat) \<le> of_int p"
    using bit_length_bounds [OF p] by (metis of_int_le_iff of_int_numeral of_int_power)
  then have p_lo: "pow2 (bit_length p - 1) \<le> of_int p"
    using bp by (simp add: pow2_def)
  have "of_int q < (2 ^ nat (bit_length q) :: rat)"
    using bit_length_bounds [OF q] by (metis of_int_less_iff of_int_numeral of_int_power)
  then have q_hi: "of_int q < pow2 (bit_length q)"
    using bq by (simp add: pow2_def)
  have "(2 ^ nat (bit_length q - 1) :: rat) \<le> of_int q"
    using bit_length_bounds [OF q] by (metis of_int_le_iff of_int_numeral of_int_power)
  then have q_lo: "pow2 (bit_length q - 1) \<le> of_int q"
    using bq by (simp add: pow2_def)
  have qpos: "(0::rat) < of_int q" using q by simp
  have "a * of_int q = of_int p" using a qpos by simp
  have upper: "a < pow2 (k + 1)"
  proof -
    have "of_int p < pow2 (bit_length p)" by (rule p_hi)
    also have "\<dots> = pow2 (k + 1) * pow2 (bit_length q - 1)"
      by (simp add: k_def flip: pow2_add)
    also have "\<dots> \<le> pow2 (k + 1) * of_int q"
      using q_lo pow2_pos [of "k + 1"] by (simp add: mult_left_mono)
    finally show ?thesis
      using qpos a by (simp add: pos_divide_less_eq)
  qed
  have lower: "pow2 (k - 1) \<le> a"
  proof -
    have "pow2 (k - 1) * of_int q \<le> pow2 (k - 1) * pow2 (bit_length q)"
      using q_hi pow2_pos [of "k - 1"] by (simp add: mult_left_mono)
    also have "\<dots> = pow2 (bit_length p - 1)"
      by (simp add: k_def flip: pow2_add)
    also have "\<dots> \<le> of_int p" by (rule p_lo)
    finally show ?thesis
      using qpos a by (simp add: pos_le_divide_eq)
  qed
  show ?thesis
  proof (cases "pow2 k \<le> a")
    case True
    then have "floor_log2 a = k"
      by (simp add: floor_log2_def pq k_def Let_def)
    with True upper show ?thesis by simp
  next
    case False
    then have "floor_log2 a = k - 1"
      by (simp add: floor_log2_def pq k_def Let_def)
    with False lower show ?thesis by simp
  qed
qed


lemma round_half_even_of_int: "round_half_even (of_int k) = k"
  by (simp add: round_half_even_def)

lemma overflow_threshold_pow2: "overflow_threshold = pow2 1024"
  by (simp add: overflow_threshold_def pow2_def)

lemma round64_dyadic_pos:
  assumes n: "0 < n" "n < 2 ^ 53" and j: "j \<le> 1074"
  shows "round64 (of_int n / 2 ^ j) = Finite (of_int n / 2 ^ j)"
proof -
  define a :: rat where "a = of_int n / 2 ^ j"
  have a_pow: "a = of_int n * pow2 (- int j)"
    by (simp add: a_def pow2_def field_simps)
  have a_pos: "0 < a" using n by (simp add: a_def)
  have "of_int n < (2 ^ 53 :: rat)"
    using n(2) by (metis of_int_less_iff of_int_numeral of_int_power)
  then have "of_int n < pow2 53" by (simp add: pow2_def)
  then have "a < pow2 53 * pow2 (- int j)"
    unfolding a_pow using pow2_pos [of "- int j"] by (simp add: mult_strict_right_mono)
  then have a_lt: "a < pow2 (53 - int j)"
    by (simp flip: pow2_add)
  define e where "e = max (floor_log2 a - 52) (- 1074)"
  have "pow2 (floor_log2 a) < pow2 (53 - int j)"
    using floor_log2_spec [OF a_pos] a_lt by simp
  then have "floor_log2 a < 53 - int j"
    by (metis not_le pow2_mono leD)
  with j have e_le: "e \<le> - int j" by (simp add: e_def)
  define t where "t = nat (- int j - e)"
  have t: "int t = - int j - e" using e_le by (simp add: t_def)
  have "a / pow2 e = of_int n * (pow2 (- int j) / pow2 e)"
    by (simp add: a_pow)
  also have "pow2 (- int j) = pow2 (int t) * pow2 e"
    by (simp add: t flip: pow2_add)
  finally have quot: "a / pow2 e = of_int (n * 2 ^ t)"
    using pow2_pos [of e] by (simp add: pow2_nat)
  have r: "of_int (round_half_even (a / pow2 e)) * pow2 e = a"
  proof -
    have "of_int (round_half_even (a / pow2 e)) * pow2 e = of_int n * (pow2 (int t) * pow2 e)"
      unfolding quot round_half_even_of_int by (simp add: pow2_nat)
    also have "\<dots> = a"
      by (simp add: a_pow t flip: pow2_add)
    finally show ?thesis .
  qed
  have "a < pow2 53" using a_lt pow2_mono [of "53 - int j" 53] by simp
  also have "\<dots> \<le> pow2 1024" by (rule pow2_mono) simp
  finally have no_overflow: "\<not> overflow_threshold \<le> a"
    by (simp add: overflow_threshold_pow2)
  have "round64 a = Finite a"
    using a_pos no_overflow r by (simp add: round64_def Let_def e_def [symmetric])
  then show ?thesis by (simp add: a_def)
qed

lemma round64_quarters:
  "0 \<le> n \<Longrightarrow> n < 2 ^ 53 \<Longrightarrow> round64 (of_int n / 4) = Finite (of_int n / 4)"
proof (cases "n = 0")
  case True
  then show ?thesis by (simp add: round64_def)
next
  case False
  assume "0 \<le> n" and "n < 2 ^ 53"
  with False round64_dyadic_pos [of n 2] show ?thesis by simp
qed

lemma foldl_no_rounding:
  "no_rounding s es \<Longrightarrow>
   foldl (\<lambda>sum exp. js_add sum (Number (amount exp))) (Finite s) es = Finite (s + exact_sum es)"
proof (induction es arbitrary: s)
  case Nil
  then show ?case by (simp add: exact_sum_def)
next
  case (Cons e es)
  from Cons.prems obtain x where x: "amount e = Finite x"
    and r: "round64 (s + x) = Finite (s + x)" and rest: "no_rounding (s + x) es"
    by (auto split: number.splits)
  from Cons.IH [OF rest] show ?case
    using x r by (simp add: Number_def exact_sum_def)
qed

lemma reduce_amounts_exact:
  "no_rounding 0 es \<Longrightarrow> reduce_amounts es = Finite (exact_sum es)"
  using foldl_no_rounding [of 0 es] by (simp add: reduce_amounts_def)

lemma exact_sum_disjoint_parts:
  assumes "\<forall>e \<in> set es. nonnegative e" and "\<And>e. \<not> (P e \<and> Q e)"
  shows "exact_sum (filter P es) + exact_sum (filter Q es) \<le> exact_sum es"
  using assms(1)
proof (induction es)
  case Nil
  then show ?case by (simp add: exact_sum_def)
next
  case (Cons e es)
  then have ih: "exact_sum (filter P es) + exact_sum (filter Q es) \<le> exact_sum es"
    by simp
  from Cons.prems have "0 \<le> exact_value (amount e)"
    by (auto simp: nonnegative_def split: number.splits)
  with ih assms(2) [of e] show ?case
    by (auto simp: exact_sum_def)
qed

text \<open>
  Amounts that are whole numbers of quarters add up without rounding as long as the sum
  stays below \<open>2 ^ 51\<close>.
\<close>

lemma exact_sum_nonneg: "\<forall>e \<in> set es. nonnegative e \<Longrightarrow> 0 \<le> exact_sum es"
proof (induction es)
  case Nil
  then show ?case by (simp add: exact_sum_def)
next
  case (Cons e es)
  then have "0 \<le> exact_value (amount e)" "0 \<le> exact_sum es"
    by (auto simp: nonnegative_def split: number.splits)
  then show ?case by (simp add: exact_sum_def)
qed

lemma exact_sum_filter_le:
  "\<forall>e \<in> set es. nonnegative e \<Longrightarrow> exact_sum (filter P es) \<le> exact_sum es"
proof (induction es)
  case Nil
  then show ?case by simp
next
  case (Cons e es)
  then have "0 \<le> exact_value (amount e)" "exact_sum (filter P es) \<le> exact_sum es"
    by (auto simp: nonnegative_def split: number.splits)
  then show ?case by (simp add: exact_sum_def)
qed

lemma whole_quarters_nonnegative: "whole_quarters e \<Longrightarrow> nonnegative e"
  by (auto simp: whole_quarters_def nonnegative_def split: number.splits)

lemma no_rounding_quarters:
  assumes "\<forall>e \<in> set es. whole_quarters e" and "0 \<le> m"
    and "of_int m / 4 + exact_sum es < 2 ^ 51"
  shows "no_rounding (of_int m / 4) es"
  using assms
proof (induction es arbitrary: m)
  case Nil
  then show ?case by simp
next
  case (Cons e es)
  from Cons.prems(1) obtain x where x: "amount e = Finite x" "0 \<le> x" "of_int \<lfloor>4 * x\<rfloor> = 4 * x"
    by (auto simp: whole_quarters_def split: number.splits)
  define n where "n = \<lfloor>4 * x\<rfloor>"
  have "4 * x = of_int n" unfolding n_def by (rule x(3) [symmetric])
  then have xn: "x = of_int n / 4" by simp
  have n0: "0 \<le> n" using x(2) by (simp add: n_def)
  have sum: "of_int m / 4 + x = of_int (m + n) / 4"
    by (simp add: xn add_divide_distrib)
  have rest_nn: "\<forall>e \<in> set es. nonnegative e"
    using Cons.prems(1) by (simp add: whole_quarters_nonnegative)
  have "exact_sum (e # es) = x + exact_sum es"
    by (simp add: exact_sum_def x(1))
  with Cons.prems(3) have "of_int m / 4 + x + exact_sum es < 2 ^ 51"
    by (simp add: add.assoc)
  then have tot: "of_int (m + n) / 4 + exact_sum es < 2 ^ 51"
    by (simp only: sum)
  with exact_sum_nonneg [OF rest_nn] have "(of_int (m + n) :: rat) / 4 < 2 ^ 51" by linarith
  then have "(of_int (m + n) :: rat) < 2 ^ 53" by simp
  then have bound: "m + n < 2 ^ 53"
    by (metis of_int_less_iff of_int_numeral of_int_power)
  have exact: "round64 (of_int (m + n) / 4) = Finite (of_int (m + n) / 4)"
    using Cons.prems(2) n0 bound by (intro round64_quarters) simp_all
  have "no_rounding (of_int (m + n) / 4) es"
    using Cons.prems(1,2) n0 tot by (intro Cons.IH) simp_all
  with exact show ?case
    by (simp add: x(1) sum)
qed

lemma totals_exact_quarters:
  assumes "\<forall>e \<in> set es. whole_quarters e" and "exact_sum es < 2 ^ 51"
  shows "totals_exact es"
proof -
  have nn: "\<forall>e \<in> set es. nonnegative e"
    using assms(1) by (simp add: whole_quarters_nonnegative)
  have part: "no_rounding 0 (filter P es)" for P
  proof -
    have "exact_sum (filter P es) < 2 ^ 51"
      using exact_sum_filter_le [OF nn, of P] assms(2) by simp
    then show ?thesis
      using no_rounding_quarters [of "filter P es" 0] assms(1) by simp
  qed
  have "no_rounding 0 es"
    using no_rounding_quarters [of es 0] assms by simp
  with part show ?thesis by (simp add: totals_exact_def)
qed

lemma within_total_exact:
  assumes "totals_exact es" and "\<forall>e \<in> set es. nonnegative e"
  shows "within_total (calculateTotals es)"
proof -
  let ?A = "\<lambda>exp. ExpenseSubmission.status exp = ''approved'' \<or> ExpenseSubmission.status exp = ''paid''"
  let ?P = "\<lambda>exp. ExpenseSubmission.status exp = ''submitted''
      \<or> ExpenseSubmission.status exp = ''under_review''"
  from assms(1) have x: "no_rounding 0 es" "no_rounding 0 (filter ?A es)"
    "no_rounding 0 (filter ?P es)"
    by (simp_all add: totals_exact_def)
  have "exact_sum (filter ?A es) + exact_sum (filter ?P es) \<le> exact_sum es"
    by (rule exact_sum_disjoint_parts [OF assms(2)]) auto
  then show ?thesis
    by (simp add: within_total_def calculateTotals_def
        reduce_amounts_exact [OF x(1)] reduce_amounts_exact [OF x(2)]
        reduce_amounts_exact [OF x(3)])
qed

lemma filteredExpenses_subset: "set (filteredExpenses tz selected expenses) \<subseteq> set expenses"
  by (cases selected) (auto simp: filteredExpenses_def)

lemma exact_sum_filteredExpenses_le:
  "\<forall>e \<in> set expenses. nonnegative e \<Longrightarrow>
   exact_sum (filteredExpenses tz selected expenses) \<le> exact_sum expenses"
  by (cases selected) (simp_all add: filteredExpenses_def exact_sum_filter_le)

lemma div_step_le:
  "0 < c \<Longrightarrow> a \<le> b \<Longrightarrow> b \<le> a + 1 \<Longrightarrow> b div c - a div c \<le> b - a" for a b c :: int
proof -
  assume c: "0 < c" and ab: "a \<le> b" and ba: "b \<le> a + 1"
  show ?thesis
  proof (cases "b = a")
    case True
    then show ?thesis by simp
  next
    case False
    with ab ba have b: "b = a + 1" by simp
    have "(a + 1) div c \<le> (a + c) div c"
      using c by (intro zdiv_mono1) simp_all
    also have "\<dots> = a div c + 1"
      using c by simp
    finally show ?thesis using b by simp
  qed
qed

text \<open>A year has at least 365 days.\<close>

lemma days_before_year_step:
  "365 * y + y div 4 - y div 100 + y div 400 + 365
     \<le> 365 * (y + 1) + (y + 1) div 4 - (y + 1) div 100 + (y + 1) div 400" for y :: int
proof -
  have q: "y div 4 \<le> (y + 1) div 4" "(y + 1) div 4 \<le> y div 4 + 1"
  proof -
    show "y div 4 \<le> (y + 1) div 4" by (intro zdiv_mono1) simp_all
    have "(y + 1) div 4 \<le> (y + 4) div 4" by (intro zdiv_mono1) simp_all
    then show "(y + 1) div 4 \<le> y div 4 + 1" by simp
  qed
  have h: "y div 100 = (y div 4) div 25" "(y + 1) div 100 = ((y + 1) div 4) div 25"
    using zdiv_zmult2_eq [of 25 y 4] zdiv_zmult2_eq [of 25 "y + 1" 4] by simp_all
  have c: "(y + 1) div 100 - y div 100 \<le> (y + 1) div 4 - y div 4"
    unfolding h using div_step_le [of 25 "y div 4" "(y + 1) div 4"] q by simp
  have d: "y div 400 \<le> (y + 1) div 400" by (intro zdiv_mono1) simp_all
  from c d show ?thesis by simp
qed

lemma days_before_year_mono:
  "y1 < y2 \<Longrightarrow>
   365 * y1 + y1 div 4 - y1 div 100 + y1 div 400 + 365
     \<le> 365 * y2 + y2 div 4 - y2 div 100 + y2 div 400" for y1 y2 :: int
proof (induction y2 rule: int_gr_induct)
  case base
  then show ?case using days_before_year_step [of y1] by simp
next
  case (step i)
  then show ?case using days_before_year_step [of i] by simp
qed

lemma month_number_range: "1 \<le> month_number m \<and> month_number m \<le> 12"
  by (cases m) simp_all

lemma month_number_inject: "month_number a = month_number b \<Longrightarrow> a = b"
  by (cases a; cases b) simp_all

lemma month_days_mono:
  "0 \<le> p \<Longrightarrow> p < q \<Longrightarrow> (153 * p + 2) div 5 + 28 \<le> (153 * q + 2) div 5" for p q :: int
proof -
  assume "0 \<le> p" and "p < q"
  then have "153 * p + 2 + 140 \<le> 153 * q + 2" by simp
  then have "(153 * p + 2 + 140) div 5 \<le> (153 * q + 2) div 5"
    by (intro zdiv_mono1) simp_all
  then show ?thesis by simp
qed

lemma month_days_range:
  "0 \<le> p \<Longrightarrow> p \<le> 11 \<Longrightarrow> 0 \<le> (153 * p + 2) div 5 \<and> (153 * p + 2) div 5 \<le> 337" for p :: int
proof -
  assume p: "0 \<le> p" "p \<le> 11"
  then have "(153 * p + 2) div 5 \<le> (153 * 11 + 2) div 5"
    by (intro zdiv_mono1) simp_all
  moreover have "0 \<le> (153 * p + 2) div 5"
    using p by (simp add: pos_imp_zdiv_nonneg_iff)
  ultimately show ?thesis by simp
qed

text \<open>The first day of a later month is at least 28 days later.\<close>

lemma first_day_gap:
  assumes "12 * ya + month_number ma < 12 * yb + month_number mb"
  shows "days_from_civil ya ma 1 + 28 \<le> days_from_civil yb mb 1"
proof -
  define ya' where "ya' = (if month_number ma \<le> 2 then ya - 1 else ya)"
  define yb' where "yb' = (if month_number mb \<le> 2 then yb - 1 else yb)"
  define pa where "pa = (month_number ma + 9) mod 12"
  define pb where "pb = (month_number mb + 9) mod 12"
  have pa: "0 \<le> pa \<and> pa \<le> 11 \<and> 12 * ya' + pa = 12 * ya + month_number ma - 3"
    unfolding pa_def ya'_def by (cases ma) simp_all
  have pb: "0 \<le> pb \<and> pb \<le> 11 \<and> 12 * yb' + pb = 12 * yb + month_number mb - 3"
    unfolding pb_def yb'_def by (cases mb) simp_all
  have da: "days_from_civil ya ma 1 =
      365 * ya' + ya' div 4 - ya' div 100 + ya' div 400 + (153 * pa + 2) div 5 - 719468"
    by (simp add: days_from_civil_def ya'_def pa_def Let_def)
  have db: "days_from_civil yb mb 1 =
      365 * yb' + yb' div 4 - yb' div 100 + yb' div 400 + (153 * pb + 2) div 5 - 719468"
    by (simp add: days_from_civil_def yb'_def pb_def Let_def)
  from assms pa pb have lt: "12 * ya' + pa < 12 * yb' + pb" by simp
  with pa pb have "ya' < yb' \<or> (ya' = yb' \<and> pa < pb)" by arith
  then show ?thesis
  proof
    assume "ya' < yb'"
    then have "365 * ya' + ya' div 4 - ya' div 100 + ya' div 400 + 365
        \<le> 365 * yb' + yb' div 4 - yb' div 100 + yb' div 400"
      by (rule days_before_year_mono)
    with month_days_range [of pa] month_days_range [of pb] pa pb show ?thesis
      unfolding da db by simp
  next
    assume "ya' = yb' \<and> pa < pb"
    with month_days_mono [of pa pb] pa show ?thesis
      unfolding da db by simp
  qed
qed

lemma later_month_index:
  "later_month a b \<longleftrightarrow> 12 * snd b + month_number (fst b) < 12 * snd a + month_number (fst a)"
  using month_number_range [of "fst a"] month_number_range [of "fst b"]
  unfolding later_month_def by arith

text \<open>
  From the year 100 on a label is read as written, and the order of the time values is
  the order of the months, whatever offsets the zone has.
\<close>

lemma getTime_as_written:
  "100 \<le> snd a \<Longrightarrow>
   getTime tz a = days_from_civil (snd a) (fst a) 1 * 86400000
     - offset_at_local_midnight tz \<lparr>year = snd a, month = fst a, day = 1\<rparr> * 60000"
  by (simp add: getTime_def label_date_def case_prod_beta)

lemma getTime_order:
  assumes zone: "valid_zone tz" and ya: "100 \<le> snd a" and yb: "100 \<le> snd b"
    and le: "getTime tz b \<le> getTime tz a" and ne: "a \<noteq> b"
  shows "later_month a b"
proof (rule ccontr)
  assume "\<not> later_month a b"
  then have ord: "12 * snd a + month_number (fst a) \<le> 12 * snd b + month_number (fst b)"
    by (simp add: later_month_index)
  show False
  proof (cases "12 * snd a + month_number (fst a) = 12 * snd b + month_number (fst b)")
    case True
    with month_number_range [of "fst a"] month_number_range [of "fst b"]
    have "snd a = snd b \<and> month_number (fst a) = month_number (fst b)" by arith
    then have "a = b" by (simp add: month_number_inject prod_eq_iff)
    with ne show False by simp
  next
    case False
    with ord have "12 * snd a + month_number (fst a) < 12 * snd b + month_number (fst b)"
      by simp
    then have gap: "days_from_civil (snd a) (fst a) 1 + 28 \<le> days_from_civil (snd b) (fst b) 1"
      by (rule first_day_gap)
    define oa where "oa = offset_at_local_midnight tz \<lparr>year = snd a, month = fst a, day = 1\<rparr>"
    define ob where "ob = offset_at_local_midnight tz \<lparr>year = snd b, month = fst b, day = 1\<rparr>"
    have "- 720 \<le> oa \<and> oa \<le> 840" and "- 720 \<le> ob \<and> ob \<le> 840"
      using zone by (simp_all add: valid_zone_def oa_def ob_def)
    with gap have "days_from_civil (snd a) (fst a) 1 * 86400000 - oa * 60000
        < days_from_civil (snd b) (fst b) 1 * 86400000 - ob * 60000"
      by simp
    then have "getTime tz a < getTime tz b"
      by (simp add: getTime_as_written ya yb oa_def ob_def)
    with le show False by simp
  qed
qed

subsection \<open>Set and sort\<close>

lemma set_foldl_set_add: "set (foldl set_add acc xs) = set acc \<union> set xs"
  by (induction xs arbitrary: acc) (auto simp: set_add_def)

lemma distinct_foldl_set_add: "distinct acc \<Longrightarrow> distinct (foldl set_add acc xs)"
  by (induction xs arbitrary: acc) (auto simp: set_add_def)

lemma set_array_from_set: "set (array_from_set xs) = set xs"
  by (simp add: array_from_set_def set_foldl_set_add)

lemma distinct_array_from_set: "distinct (array_from_set xs)"
  by (simp add: array_from_set_def distinct_foldl_set_add)

lemma set_sort_insert: "set (sort_insert compare x ys) = insert x (set ys)"
  by (induction ys) auto

lemma distinct_sort_insert:
  "distinct ys \<Longrightarrow> x \<notin> set ys \<Longrightarrow> distinct (sort_insert compare x ys)"
  by (induction ys) (auto simp: set_sort_insert)

lemma set_array_sort: "set (array_sort compare xs) = set xs"
  by (induction xs) (auto simp: array_sort_def set_sort_insert)

lemma distinct_array_sort: "distinct xs \<Longrightarrow> distinct (array_sort compare xs)"
proof (induction xs)
  case Nil
  then show ?case by (simp add: array_sort_def)
next
  case (Cons x xs)
  then have "distinct (array_sort compare xs)" and "x \<notin> set (array_sort compare xs)"
    by (simp_all add: set_array_sort)
  then have "distinct (sort_insert compare x (array_sort compare xs))"
    by (rule distinct_sort_insert)
  then show ?case by (simp add: array_sort_def)
qed

lemma sorted_sort_insert:
  "sorted_wrt (\<lambda>a b. key b \<le> key a) ys \<Longrightarrow>
   sorted_wrt (\<lambda>a b. key b \<le> key a) (sort_insert (\<lambda>a b. key b - key a) x ys)"
  for key :: "'a \<Rightarrow> int"
  by (induction ys) (auto simp: set_sort_insert)

lemma sorted_array_sort:
  "sorted_wrt (\<lambda>a b. key b \<le> key a) (array_sort (\<lambda>a b. key b - key a) xs)"
  for key :: "'a \<Rightarrow> int"
proof (induction xs)
  case Nil
  then show ?case by (simp add: array_sort_def)
next
  case (Cons x xs)
  then have "sorted_wrt (\<lambda>a b. key b \<le> key a)
      (sort_insert (\<lambda>a b. key b - key a) x (array_sort (\<lambda>a b. key b - key a) xs))"
    by (rule sorted_sort_insert)
  then show ?case by (simp add: array_sort_def)
qed

lemma sorted_wrt_distinct:
  "sorted_wrt P xs \<Longrightarrow> distinct xs \<Longrightarrow> sorted_wrt (\<lambda>a b. P a b \<and> a \<noteq> b) xs"
  by (induction xs) auto

subsection \<open>The total\<close>

text \<open>
  Claim C3, as stated, fails on the code: the sum is a sum of JavaScript numbers. For the
  two amounts 0.10 and 0.20 the total is 0.30000000000000004, which is neither the exact
  sum of the two amounts nor the number 0.3.
\<close>

theorem total_rounds_tenths:
  "total (totals (fixed_offset 0) All
      [sample_expense (round64 (1 / 10)) ''approved'' \<lparr>year = 2025, month = November, day = 6\<rparr>,
       sample_expense (round64 (2 / 10)) ''approved'' \<lparr>year = 2025, month = November, day = 3\<rparr>])
     = Finite (1351079888211149 / 4503599627370496)
   \<and> total (totals (fixed_offset 0) All
      [sample_expense (round64 (1 / 10)) ''approved'' \<lparr>year = 2025, month = November, day = 6\<rparr>,
       sample_expense (round64 (2 / 10)) ''approved'' \<lparr>year = 2025, month = November, day = 3\<rparr>])
     \<noteq> Finite (exact_sum
      [sample_expense (round64 (1 / 10)) ''approved'' \<lparr>year = 2025, month = November, day = 6\<rparr>,
       sample_expense (round64 (2 / 10)) ''approved'' \<lparr>year = 2025, month = November, day = 3\<rparr>])
   \<and> total (totals (fixed_offset 0) All
      [sample_expense (round64 (1 / 10)) ''approved'' \<lparr>year = 2025, month = November, day = 6\<rparr>,
       sample_expense (round64 (2 / 10)) ''approved'' \<lparr>year = 2025, month = November, day = 3\<rparr>])
     \<noteq> round64 (3 / 10)"
  by code_simp

text \<open>
  Claim C3, amended. For every list of expense records, \<open>total\<close> over the filter "all" is
  the sum of the amounts taken from left to right in binary64 arithmetic, starting from
  0; it equals the exact sum of the amounts whenever no addition on the way rounds, as
  for no record and for one record, and in particular whenever every amount is a whole
  number of quarters and the sum is below \<open>2 ^ 51\<close>: 85.50 + 42.00 + 156.75 gives exactly
  284.25.
\<close>

theorem total_exact_without_rounding:
  "(no_rounding 0 expenses \<longrightarrow> total (totals tz All expenses) = Finite (exact_sum expenses))
   \<and> ((\<forall>e \<in> set expenses. whole_quarters e) \<and> exact_sum expenses < 2 ^ 51 \<longrightarrow>
        no_rounding 0 expenses)"
proof -
  have a: "no_rounding 0 expenses \<longrightarrow> total (totals tz All expenses) = Finite (exact_sum expenses)"
    by (simp add: totals_def filteredExpenses_def calculateTotals_def reduce_amounts_exact)
  have b: "(\<forall>e \<in> set expenses. whole_quarters e) \<and> exact_sum expenses < 2 ^ 51 \<longrightarrow>
        no_rounding 0 expenses"
    using no_rounding_quarters [of expenses 0] by simp
  from a b show ?thesis by blast
qed

theorem total_exact_without_rounding_witness:
  "list_all whole_quarters
      [sample_expense (Finite (171 / 2)) ''approved'' \<lparr>year = 2025, month = November, day = 6\<rparr>,
       sample_expense (Finite 42) ''submitted'' \<lparr>year = 2025, month = November, day = 3\<rparr>,
       sample_expense (Finite (627 / 4)) ''paid'' \<lparr>year = 2025, month = November, day = 1\<rparr>]
   \<and> exact_sum
      [sample_expense (Finite (171 / 2)) ''approved'' \<lparr>year = 2025, month = November, day = 6\<rparr>,
       sample_expense (Finite 42) ''submitted'' \<lparr>year = 2025, month = November, day = 3\<rparr>,
       sample_expense (Finite (627 / 4)) ''paid'' \<lparr>year = 2025, month = November, day = 1\<rparr>] < 2 ^ 51
   \<and> no_rounding 0
      [sample_expense (Finite (171 / 2)) ''approved'' \<lparr>year = 2025, month = November, day = 6\<rparr>,
       sample_expense (Finite 42) ''submitted'' \<lparr>year = 2025, month = November, day = 3\<rparr>,
       sample_expense (Finite (627 / 4)) ''paid'' \<lparr>year = 2025, month = November, day = 1\<rparr>]
   \<and> total (totals (fixed_offset 0) All
      [sample_expense (Finite (171 / 2)) ''approved'' \<lparr>year = 2025, month = November, day = 6\<rparr>,
       sample_expense (Finite 42) ''submitted'' \<lparr>year = 2025, month = November, day = 3\<rparr>,
       sample_expense (Finite (627 / 4)) ''paid'' \<lparr>year = 2025, month = November, day = 1\<rparr>])
     = Finite (1137 / 4)"
proof -
  let ?es = "[sample_expense (Finite (171 / 2)) ''approved'' \<lparr>year = 2025, month = November, day = 6\<rparr>,
       sample_expense (Finite 42) ''submitted'' \<lparr>year = 2025, month = November, day = 3\<rparr>,
       sample_expense (Finite (627 / 4)) ''paid'' \<lparr>year = 2025, month = November, day = 1\<rparr>]"
  have q: "\<forall>e \<in> set ?es. whole_quarters e"
    by (simp add: whole_quarters_def sample_expense_def)
  have e: "exact_sum ?es = 1137 / 4"
    by (simp add: exact_sum_def sample_expense_def)
  then have b: "exact_sum ?es < 2 ^ 51"
    by simp
  from q b total_exact_without_rounding [of ?es "fixed_offset 0"]
  have h: "no_rounding 0 ?es" and "total (totals (fixed_offset 0) All ?es) = Finite (exact_sum ?es)"
    by blast+
  with q b e show ?thesis
    by (simp add: list_all_iff)
qed

lemma total_of_no_record: "total (totals tz All []) = Finite 0"
  by (simp add: totals_def filteredExpenses_def calculateTotals_def reduce_amounts_def)

lemma total_of_one_record:
  "round64 x = Finite x \<Longrightarrow> amount e = Finite x \<Longrightarrow> total (totals tz All [e]) = Finite x"
  by (simp add: totals_def filteredExpenses_def calculateTotals_def reduce_amounts_def Number_def)

subsection \<open>The three totals\<close>

text \<open>
  Claim C6, as stated, fails on the code. For the amounts 0.30 (approved), 0.20
  (submitted) and 0.10 (approved), all positive, the total is 0.6 while approved is 0.4
  and pending is 0.2: the two together exceed the total, whether they are added exactly
  or as JavaScript numbers (0.6000000000000001).
\<close>

theorem approved_plus_pending_exceeds_total:
  "list_all nonnegative
      [sample_expense (round64 (3 / 10)) ''approved'' \<lparr>year = 2025, month = November, day = 6\<rparr>,
       sample_expense (round64 (2 / 10)) ''submitted'' \<lparr>year = 2025, month = November, day = 3\<rparr>,
       sample_expense (round64 (1 / 10)) ''approved'' \<lparr>year = 2025, month = November, day = 1\<rparr>]
   \<and> totals (fixed_offset 0) All
      [sample_expense (round64 (3 / 10)) ''approved'' \<lparr>year = 2025, month = November, day = 6\<rparr>,
       sample_expense (round64 (2 / 10)) ''submitted'' \<lparr>year = 2025, month = November, day = 3\<rparr>,
       sample_expense (round64 (1 / 10)) ''approved'' \<lparr>year = 2025, month = November, day = 1\<rparr>]
     = \<lparr>total = Finite (5404319552844595 / 9007199254740992),
        approved = Finite (3602879701896397 / 9007199254740992),
        pending = Finite (3602879701896397 / 18014398509481984)\<rparr>
   \<and> \<not> within_total (totals (fixed_offset 0) All
      [sample_expense (round64 (3 / 10)) ''approved'' \<lparr>year = 2025, month = November, day = 6\<rparr>,
       sample_expense (round64 (2 / 10)) ''submitted'' \<lparr>year = 2025, month = November, day = 3\<rparr>,
       sample_expense (round64 (1 / 10)) ''approved'' \<lparr>year = 2025, month = November, day = 1\<rparr>])
   \<and> js_add (Finite (3602879701896397 / 9007199254740992))
        (Finite (3602879701896397 / 18014398509481984))
     = Finite (1351079888211149 / 2251799813685248)
   \<and> (5404319552844595 / 9007199254740992 :: rat) < 1351079888211149 / 2251799813685248"
  by code_simp

text \<open>
  Claim C6, amended. For every list of expense records with non-negative amounts and
  every month filter, approved + pending \<open>\<le>\<close> total whenever none of the additions of the
  three reductions rounds (the approved statuses and the pending statuses are
  disjoint), and in particular whenever every amount is a whole number of quarters and
  the sum of all amounts is below \<open>2 ^ 51\<close>. For 100 (approved), 50 (submitted) and 30
  (rejected) over "all" the result is total = 180, approved = 100, pending = 50.
\<close>

theorem approved_pending_within_total_without_rounding:
  "(totals_exact (filteredExpenses tz selected expenses)
      \<and> (\<forall>exp \<in> set expenses. nonnegative exp) \<longrightarrow>
        within_total (totals tz selected expenses))
   \<and> ((\<forall>exp \<in> set expenses. whole_quarters exp) \<and> exact_sum expenses < 2 ^ 51 \<longrightarrow>
        totals_exact (filteredExpenses tz selected expenses)
        \<and> (\<forall>exp \<in> set expenses. nonnegative exp))"
proof -
  let ?es = "filteredExpenses tz selected expenses"
  have a: "within_total (totals tz selected expenses)"
    if "totals_exact ?es" and "\<forall>exp \<in> set expenses. nonnegative exp"
  proof -
    from that(2) filteredExpenses_subset [of tz selected expenses]
    have "\<forall>e \<in> set ?es. nonnegative e" by blast
    with that(1) show ?thesis
      unfolding totals_def by (rule within_total_exact)
  qed
  have b: "totals_exact ?es \<and> (\<forall>exp \<in> set expenses. nonnegative exp)"
    if q: "\<forall>exp \<in> set expenses. whole_quarters exp" and bound: "exact_sum expenses < 2 ^ 51"
  proof -
    from q have nn: "\<forall>exp \<in> set expenses. nonnegative exp"
      by (simp add: whole_quarters_nonnegative)
    from q filteredExpenses_subset [of tz selected expenses]
    have q': "\<forall>e \<in> set ?es. whole_quarters e" by blast
    have "exact_sum ?es < 2 ^ 51"
      using exact_sum_filteredExpenses_le [OF nn, of tz selected] bound by simp
    with q' have "totals_exact ?es" by (rule totals_exact_quarters)
    with nn show ?thesis by simp
  qed
  from a b show ?thesis by blast
qed

theorem approved_pending_within_total_without_rounding_witness:
  "list_all whole_quarters
      [sample_expense (Finite 100) ''approved'' \<lparr>year = 2025, month = November, day = 6\<rparr>,
       sample_expense (Finite 50) ''submitted'' \<lparr>year = 2025, month = November, day = 3\<rparr>,
       sample_expense (Finite 30) ''rejected'' \<lparr>year = 2025, month = October, day = 30\<rparr>]
   \<and> exact_sum
      [sample_expense (Finite 100) ''approved'' \<lparr>year = 2025, month = November, day = 6\<rparr>,
       sample_expense (Finite 50) ''submitted'' \<lparr>year = 2025, month = November, day = 3\<rparr>,
       sample_expense (Finite 30) ''rejected'' \<lparr>year = 2025, month = October, day = 30\<rparr>] < 2 ^ 51
   \<and> totals_exact (filteredExpenses (fixed_offset 0) All
      [sample_expense (Finite 100) ''approved'' \<lparr>year = 2025, month = November, day = 6\<rparr>,
       sample_expense (Finite 50) ''submitted'' \<lparr>year = 2025, month = November, day = 3\<rparr>,
       sample_expense (Finite 30) ''rejected'' \<lparr>year = 2025, month = October, day = 30\<rparr>])
   \<and> totals (fixed_offset 0) All
      [sample_expense (Finite 100) ''approved'' \<lparr>year = 2025, month = November, day = 6\<rparr>,
       sample_expense (Finite 50) ''submitted'' \<lparr>year = 2025, month = November, day = 3\<rparr>,
       sample_expense (Finite 30) ''rejected'' \<lparr>year = 2025, month = October, day = 30\<rparr>]
     = \<lparr>total = Finite 180, approved = Finite 100, pending = Finite 50\<rparr>
   \<and> within_total (totals (fixed_offset 0) All
      [sample_expense (Finite 100) ''approved'' \<lparr>year = 2025, month = November, day = 6\<rparr>,
       sample_expense (Finite 50) ''submitted'' \<lparr>year = 2025, month = November, day = 3\<rparr>,
       sample_expense (Finite 30) ''rejected'' \<lparr>year = 2025, month = October, day = 30\<rparr>])"
proof -
  let ?es = "[sample_expense (Finite 100) ''approved'' \<lparr>year = 2025, month = November, day = 6\<rparr>,
       sample_expense (Finite 50) ''submitted'' \<lparr>year = 2025, month = November, day = 3\<rparr>,
       sample_expense (Finite 30) ''rejected'' \<lparr>year = 2025, month = October, day = 30\<rparr>]"
  have q: "\<forall>exp \<in> set ?es. whole_quarters exp"
    by (simp add: whole_quarters_def sample_expense_def)
  have b: "exact_sum ?es < 2 ^ 51"
    by (simp add: exact_sum_def sample_expense_def)
  from q b approved_pending_within_total_without_rounding [of "fixed_offset 0" All ?es]
  have h: "totals_exact (filteredExpenses (fixed_offset 0) All ?es)" and w: "within_total (totals (fixed_offset 0) All ?es)"
    by blast+
  have v: "totals (fixed_offset 0) All ?es = \<lparr>total = Finite 180, approved = Finite 100, pending = Finite 50\<rparr>"
    by code_simp
  from q b h w v show ?thesis
    by (simp add: list_all_iff)
qed

subsection \<open>The month filter\<close>

lemma filteredExpenses_selects:
  "filteredExpenses tz All expenses = expenses"
  "filteredExpenses tz (Label l) expenses =
     filter (\<lambda>exp. getMonthYear tz (expense_date exp) = l) expenses"
  "totals tz selected expenses = calculateTotals (filteredExpenses tz selected expenses)"
  by (simp_all add: filteredExpenses_def totals_def)

lemma getMonthYear_own_month:
  "0 \<le> offset_at_utc_midnight tz d \<or> 1 < day d \<Longrightarrow> getMonthYear tz d = (month d, year d)"
  by (auto simp: getMonthYear_def local_date_def prev_day_def)

lemma getMonthYear_previous_month:
  "offset_at_utc_midnight tz d < 0 \<Longrightarrow> day d \<le> 1 \<Longrightarrow>
   getMonthYear tz d = (prev_month (month d), if month d = January then year d - 1 else year d)"
  by (auto simp: getMonthYear_def local_date_def prev_day_def Let_def)

text \<open>
  Claim C5: the code at the failing input. On a machine five hours west of UTC (offset
  -300 minutes all year), an expense dated 2025-11-01 gets the label "October 2025": the filter
  "November 2025" leaves it out, and its totals are zero, while the filter "October
  2025" lets it through.
\<close>

theorem first_of_month_west_of_utc:
  "getMonthYear (fixed_offset (- 300)) \<lparr>year = 2025, month = November, day = 1\<rparr> = (October, 2025)
   \<and> filteredExpenses (fixed_offset (- 300)) (Label (November, 2025))
        [sample_expense (Finite 75) ''approved'' \<lparr>year = 2025, month = November, day = 1\<rparr>] = []
   \<and> filteredExpenses (fixed_offset (- 300)) (Label (October, 2025))
        [sample_expense (Finite 75) ''approved'' \<lparr>year = 2025, month = November, day = 1\<rparr>]
      = [sample_expense (Finite 75) ''approved'' \<lparr>year = 2025, month = November, day = 1\<rparr>]
   \<and> totals (fixed_offset (- 300)) (Label (November, 2025))
        [sample_expense (Finite 75) ''approved'' \<lparr>year = 2025, month = November, day = 1\<rparr>]
      = \<lparr>total = Finite 0, approved = Finite 0, pending = Finite 0\<rparr>"
  by (simp add: getMonthYear_def local_date_def fixed_offset_def prev_day_def days_in_month_def
      totals_def filteredExpenses_def sample_expense_def calculateTotals_def reduce_amounts_def)

subsection \<open>The labels offered\<close>

text \<open>
  Claim C7, as stated, fails on the code: the labels are put in order by reading each
  label back as a date, and a label with a year below 100 is not read as written. For
  two expenses dated 1500-01-01 and 0099-05-05 (in the order of the fetch, latest first)
  the labels are "January 1500" and "May 99"; "May 99" is read as May 1999 and is offered
  first, although January 1500 is the later month.
\<close>

theorem uniqueMonths_two_digit_year:
  "uniqueMonths (fixed_offset 0)
     [sample_expense (Finite 75) ''approved'' \<lparr>year = 1500, month = January, day = 1\<rparr>,
      sample_expense (Finite 75) ''approved'' \<lparr>year = 99, month = May, day = 5\<rparr>]
     = [(May, 99), (January, 1500)]
   \<and> later_month (January, 1500) (May, 99)
   \<and> \<not> sorted_wrt later_month (uniqueMonths (fixed_offset 0)
     [sample_expense (Finite 75) ''approved'' \<lparr>year = 1500, month = January, day = 1\<rparr>,
      sample_expense (Finite 75) ''approved'' \<lparr>year = 99, month = May, day = 5\<rparr>])"
  by code_simp

text \<open>
  Claim C7, amended. For every list of expense records dated in years up to 9999 whose
  labels carry a year of 100 or more, in every zone, the labels offered for filtering
  are the labels derived from the records' expense dates, each once, the most recent
  month first; the label of a record is the calendar month of its expense date whenever
  the zone's offset at midnight UTC of that date is not negative or the date is not the
  first day of its month.
\<close>

theorem uniqueMonths_reverse_chronological:
  "valid_zone tz \<Longrightarrow>
   \<forall>e \<in> set expenses. year (expense_date e) \<le> 9999
      \<and> 100 \<le> snd (getMonthYear tz (expense_date e)) \<Longrightarrow>
   set (uniqueMonths tz expenses) = (\<lambda>e. getMonthYear tz (expense_date e)) ` set expenses
   \<and> distinct (uniqueMonths tz expenses)
   \<and> sorted_wrt later_month (uniqueMonths tz expenses)
   \<and> (\<forall>e \<in> set expenses.
         0 \<le> offset_at_utc_midnight tz (expense_date e) \<or> 1 < day (expense_date e) \<longrightarrow>
         getMonthYear tz (expense_date e) = (month (expense_date e), year (expense_date e)))"
proof -
  assume zone: "valid_zone tz"
    and years: "\<forall>e \<in> set expenses. year (expense_date e) \<le> 9999
      \<and> 100 \<le> snd (getMonthYear tz (expense_date e))"
  have s: "set (uniqueMonths tz expenses) = (\<lambda>e. getMonthYear tz (expense_date e)) ` set expenses"
    by (simp add: uniqueMonths_def set_array_sort set_array_from_set)
  have d: "distinct (uniqueMonths tz expenses)"
    by (simp add: uniqueMonths_def distinct_array_sort distinct_array_from_set)
  have y: "100 \<le> snd l" if "l \<in> set (uniqueMonths tz expenses)" for l
    using that years unfolding s by auto
  have "sorted_wrt (\<lambda>a b. getTime tz b \<le> getTime tz a) (uniqueMonths tz expenses)"
    unfolding uniqueMonths_def by (rule sorted_array_sort)
  then have "sorted_wrt (\<lambda>a b. getTime tz b \<le> getTime tz a \<and> a \<noteq> b) (uniqueMonths tz expenses)"
    using d by (rule sorted_wrt_distinct)
  then have o: "sorted_wrt later_month (uniqueMonths tz expenses)"
    by (rule sorted_wrt_mono_rel [rotated]) (blast intro: getTime_order [OF zone] y)
  have l: "\<forall>e \<in> set expenses.
         0 \<le> offset_at_utc_midnight tz (expense_date e) \<or> 1 < day (expense_date e) \<longrightarrow>
         getMonthYear tz (expense_date e) = (month (expense_date e), year (expense_date e))"
    by (auto simp: getMonthYear_def local_date_def prev_day_def Let_def)
  from s d o l show ?thesis by blast
qed

theorem uniqueMonths_reverse_chronological_witness:
  "valid_zone (fixed_offset 330)
   \<and> list_all (\<lambda>e. year (expense_date e) \<le> 9999
        \<and> 100 \<le> snd (getMonthYear (fixed_offset 330) (expense_date e)))
     [sample_expense (Finite 75) ''approved'' \<lparr>year = 2026, month = January, day = 1\<rparr>,
      sample_expense (Finite 75) ''approved'' \<lparr>year = 2025, month = November, day = 6\<rparr>,
      sample_expense (Finite 75) ''approved'' \<lparr>year = 2025, month = November, day = 1\<rparr>,
      sample_expense (Finite 75) ''approved'' \<lparr>year = 2025, month = October, day = 30\<rparr>]
   \<and> uniqueMonths (fixed_offset 330)
     [sample_expense (Finite 75) ''approved'' \<lparr>year = 2026, month = January, day = 1\<rparr>,
      sample_expense (Finite 75) ''approved'' \<lparr>year = 2025, month = November, day = 6\<rparr>,
      sample_expense (Finite 75) ''approved'' \<lparr>year = 2025, month = November, day = 1\<rparr>,
      sample_expense (Finite 75) ''approved'' \<lparr>year = 2025, month = October, day = 30\<rparr>]
     = [(January, 2026), (November, 2025), (October, 2025)]
   \<and> sorted_wrt later_month (uniqueMonths (fixed_offset 330)
     [sample_expense (Finite 75) ''approved'' \<lparr>year = 2026, month = January, day = 1\<rparr>,
      sample_expense (Finite 75) ''approved'' \<lparr>year = 2025, month = November, day = 6\<rparr>,
      sample_expense (Finite 75) ''approved'' \<lparr>year = 2025, month = November, day = 1\<rparr>,
      sample_expense (Finite 75) ''approved'' \<lparr>year = 2025, month = October, day = 30\<rparr>])
   \<and> getMonthYear (fixed_offset 330) \<lparr>year = 2025, month = November, day = 1\<rparr> = (November, 2025)"
proof -
  let ?es = "[sample_expense (Finite 75) ''approved'' \<lparr>year = 2026, month = January, day = 1\<rparr>,
      sample_expense (Finite 75) ''approved'' \<lparr>year = 2025, month = November, day = 6\<rparr>,
      sample_expense (Finite 75) ''approved'' \<lparr>year = 2025, month = November, day = 1\<rparr>,
      sample_expense (Finite 75) ''approved'' \<lparr>year = 2025, month = October, day = 30\<rparr>]"
  have z: "valid_zone (fixed_offset 330)"
    by (simp add: valid_zone_def fixed_offset_def)
  have y: "\<forall>e \<in> set ?es. year (expense_date e) \<le> 9999
      \<and> 100 \<le> snd (getMonthYear (fixed_offset 330) (expense_date e))"
    by (simp add: getMonthYear_def local_date_def fixed_offset_def sample_expense_def)
  have v: "uniqueMonths (fixed_offset 330) ?es = [(January, 2026), (November, 2025), (October, 2025)]"
    by code_simp
  have m: "sample_expense (Finite 75) ''approved'' \<lparr>year = 2025, month = November, day = 1\<rparr> \<in> set ?es"
    by simp
  have o: "0 \<le> offset_at_utc_midnight (fixed_offset 330)
      (expense_date (sample_expense (Finite 75) ''approved'' \<lparr>year = 2025, month = November, day = 1\<rparr>))"
    by (simp add: fixed_offset_def)
  have e: "expense_date (sample_expense (Finite 75) ''approved'' \<lparr>year = 2025, month = November, day = 1\<rparr>)
      = \<lparr>year = 2025, month = November, day = 1\<rparr>"
    by (simp add: sample_expense_def)
  note t = uniqueMonths_reverse_chronological [OF z y]
  from t have srt: "sorted_wrt later_month (uniqueMonths (fixed_offset 330) ?es)"
    by blast
  from t m o have "getMonthYear (fixed_offset 330)
      (expense_date (sample_expense (Finite 75) ''approved'' \<lparr>year = 2025, month = November, day = 1\<rparr>))
      = (month (expense_date (sample_expense (Finite 75) ''approved''
            \<lparr>year = 2025, month = November, day = 1\<rparr>)),
         year (expense_date (sample_expense (Finite 75) ''approved''
            \<lparr>year = 2025, month = November, day = 1\<rparr>)))"
    by blast
  then have g: "getMonthYear (fixed_offset 330) \<lparr>year = 2025, month = November, day = 1\<rparr>
      = (November, 2025)"
    by (simp add: sample_expense_def)
  from z y v srt g show ?thesis
    by (simp add: list_all_iff)
qed

subsection \<open>Values outside the enumerations\<close>

text \<open>
  Claim C8. For every expense record, also one whose status or category is outside the
  known values, the colour of the status and the icon of the category are defined: an
  unknown status gets the grey classes and an unknown category the page icon; and in
  the totals a record of unknown status counts in \<open>total\<close> only, leaving \<open>approved\<close> and
  \<open>pending\<close> as they are. None of these functions has a failing branch.
\<close>

theorem unknown_values_fall_back:
  "(\<not> known_expense_status s \<longrightarrow> getStatusColor s = ''bg-gray-100 text-gray-700 border-gray-200'')
   \<and> (\<not> known_expense_category c \<longrightarrow> getCategoryIcon c = [0x1F4C4])
   \<and> (\<not> known_expense_status (ExpenseSubmission.status e) \<longrightarrow>
        approved (calculateTotals (e # es)) = approved (calculateTotals es)
      \<and> pending (calculateTotals (e # es)) = pending (calculateTotals es)
      \<and> total (calculateTotals [e]) = js_add (Finite 0) (amount e))"
  by (auto simp: known_expense_status_def known_expense_category_def getStatusColor_def
      getCategoryIcon_def calculateTotals_def reduce_amounts_def Number_def)

theorem unknown_values_fall_back_witness:
  "\<not> known_expense_status ''cancelled''
   \<and> getStatusColor ''cancelled'' = ''bg-gray-100 text-gray-700 border-gray-200''
   \<and> \<not> known_expense_category ''lodging''
   \<and> getCategoryIcon ''lodging'' = [0x1F4C4]
   \<and> total (calculateTotals
        [sample_expense (Finite 75) ''cancelled'' \<lparr>year = 2025, month = November, day = 6\<rparr>])
      = js_add (Finite 0) (Finite 75)
   \<and> approved (calculateTotals
        [sample_expense (Finite 75) ''cancelled'' \<lparr>year = 2025, month = November, day = 6\<rparr>])
      = Finite 0"
proof -
  have s: "\<not> known_expense_status ''cancelled''"
    by (simp add: known_expense_status_def)
  have c: "\<not> known_expense_category ''lodging''"
    by (simp add: known_expense_category_def)
  have e: "\<not> known_expense_status (ExpenseSubmission.status
      (sample_expense (Finite 75) ''cancelled'' \<lparr>year = 2025, month = November, day = 6\<rparr>))"
    by (simp add: known_expense_status_def sample_expense_def)
  have a: "amount (sample_expense (Finite 75) ''cancelled'' \<lparr>year = 2025, month = November, day = 6\<rparr>)
      = Finite 75"
    by (simp add: sample_expense_def)
  have z: "approved (calculateTotals []) = Finite 0"
    by (simp add: calculateTotals_def reduce_amounts_def)
  show ?thesis
    using s c e a z
      unknown_values_fall_back [of "''cancelled''" "''lodging''"
        "sample_expense (Finite 75) ''cancelled'' \<lparr>year = 2025, month = November, day = 6\<rparr>" "[]"]
    by simp
qed

lemma categoryIcons_unknown:
  "c \<notin> {''installation'', ''repair'', ''maintenance'', ''inspection'', ''other''} \<Longrightarrow>
   categoryIcons c = None"
  by (simp add: categoryIcons_def)

subsection \<open>An empty selection\<close>

text \<open>
  Claim C9. When the filtered list of expense records is empty, and so for an empty
  input, the three totals are 0; there is no error to signal.
\<close>

theorem totals_of_empty_selection:
  "(filteredExpenses tz selected expenses = [] \<longrightarrow>
      totals tz selected expenses = \<lparr>total = Finite 0, approved = Finite 0, pending = Finite 0\<rparr>)
   \<and> totals tz selected [] = \<lparr>total = Finite 0, approved = Finite 0, pending = Finite 0\<rparr>"
  by (cases selected) (simp_all add: totals_def calculateTotals_def reduce_amounts_def filteredExpenses_def)

theorem totals_of_empty_selection_witness:
  "filteredExpenses (fixed_offset 0) (Label (March, 2025))
      [sample_expense (Finite 75) ''approved'' \<lparr>year = 2025, month = November, day = 6\<rparr>] = []
   \<and> totals (fixed_offset 0) (Label (March, 2025))
      [sample_expense (Finite 75) ''approved'' \<lparr>year = 2025, month = November, day = 6\<rparr>]
     = \<lparr>total = Finite 0, approved = Finite 0, pending = Finite 0\<rparr>"
proof -
  have h: "filteredExpenses (fixed_offset 0) (Label (March, 2025))
      [sample_expense (Finite 75) ''approved'' \<lparr>year = 2025, month = November, day = 6\<rparr>] = []"
    by (simp add: filteredExpenses_def getMonthYear_def local_date_def fixed_offset_def
        sample_expense_def)
  show ?thesis
    using h totals_of_empty_selection [of "fixed_offset 0" "Label (March, 2025)"
      "[sample_expense (Finite 75) ''approved'' \<lparr>year = 2025, month = November, day = 6\<rparr>]"]
    by blast
qed

end
